theory Spec2Isabelle
  imports Main "HOL-Library.AList"
begin

section \<open>Data model of \<open>ax/core/search_space.py\<close>\<close>

text \<open>
  The module \<open>ax.core.search_space\<close> defines \<open>SearchSpace\<close>, its subclass
  \<open>HierarchicalSearchSpace\<close> and the helper \<open>_disjoint_union\<close>. \<open>Parameter\<close>,
  \<open>ParameterConstraint\<close> and \<open>Arm\<close> are collaborators defined in other modules; they
  enter the model through the attributes and methods that the search space calls.

  A parameter value (\<open>TParamValue\<close>) is \<open>'v option\<close>, with \<open>None\<close> for Python's
  \<open>None\<close>; \<open>'f\<close> is the type of floating point numbers. A dict is an association
  list with its keys in insertion order: \<open>map_of\<close> looks a key up and \<open>AList.update\<close>
  assigns to a key, in place when the key is there and at the end when it is new. A set
  of names is a \<open>string set\<close>.
\<close>

subsection \<open>Exceptions\<close>

text \<open>One constructor for each place that raises, named after the exception class.\<close>

datatype error =
    ValueError_names_not_unique
  | ValueError_not_in_space string
  | ValueError_definition_mismatch string
  | ValueError_wrong_length nat nat
  | ValueError_not_defined string
  | ValueError_invalid_value string
  | ValueError_constraint_violated
  | ValueError_not_present string
  | NotImplementedError_no_root "string set" nat "string set"
  | NotImplementedError
  | UserInputError_shared "string set"
  | UserInputError_unreachable "string set"
  | StopIteration
  | RuntimeError_generator_raised_StopIteration
  | RecursionError
  | KeyError string
  | AttributeError string
  | TypeError
  | OverflowError

subsection \<open>Parameters\<close>

text \<open>
  A \<open>Parameter\<close> object: \<open>obj_id\<close> is the identity of the object (two references
  are the same instance iff the records are equal, \<open>obj_id\<close> included); the other
  fields are the attributes and methods used by the search space. No operation of the
  module changes a parameter object, so a reference is modelled by the object itself.
  \<open>cast\<close> may raise (a conversion such as \<open>int(value)\<close> does).
\<close>

record 'v parameter =
  obj_id :: nat
  name :: string
  is_numeric :: bool
  is_hierarchical :: bool
  dependents :: "('v option \<times> string list) list"
  validate :: "'v option \<Rightarrow> bool"
  cast :: "'v option \<Rightarrow> error + 'v option"

text \<open>\<open>p == q\<close> on parameters compares the attributes, not the identity.\<close>

definition param_eq :: "'v parameter \<Rightarrow> 'v parameter \<Rightarrow> bool" where
  "param_eq p q = (p\<lparr>obj_id := obj_id q\<rparr> = q)"

subsection \<open>Parameter constraints\<close>

text \<open>
  The three classes told apart by \<open>isinstance\<close>. An \<open>OrderConstraint\<close> holds
  \<open>_lower_parameter\<close> and \<open>_upper_parameter\<close>, a \<open>SumConstraint\<close> a list of
  parameters, any other \<open>ParameterConstraint\<close> a \<open>constraint_dict\<close> from names to
  weights. The last component is the method \<open>check\<close>, which is given a dict from
  names to floats and returns a truth value or raises (\<open>ParameterConstraint.check\<close>
  raises \<open>ValueError\<close> for a name of its \<open>constraint_dict\<close> that the dict does not
  hold). A constraint object is modelled by its contents: an assignment to one of its
  attributes gives a new value, which takes the place of the old one in the list that
  holds the object.
\<close>

datatype ('v, 'f) parameter_constraint =
    OrderConstraint "'v parameter" "'v parameter" "(string \<times> 'f) list \<Rightarrow> error + bool"
  | SumConstraint "'v parameter list" "(string \<times> 'f) list \<Rightarrow> error + bool"
  | ParameterConstraint "(string \<times> 'f) list" "(string \<times> 'f) list \<Rightarrow> error + bool"

fun check :: "('v, 'f) parameter_constraint \<Rightarrow> (string \<times> 'f) list \<Rightarrow> error + bool" where
  "check (OrderConstraint l u chk) d = chk d"
| "check (SumConstraint ps chk) d = chk d"
| "check (ParameterConstraint cd chk) d = chk d"

fun is_structural :: "('v, 'f) parameter_constraint \<Rightarrow> bool" where
  "is_structural (OrderConstraint l u chk) = True"
| "is_structural (SumConstraint ps chk) = True"
| "is_structural (ParameterConstraint cd chk) = False"

text \<open>The property \<open>constraint.parameters\<close> of the two structural classes.\<close>

fun constraint_parameters :: "('v, 'f) parameter_constraint \<Rightarrow> 'v parameter list" where
  "constraint_parameters (OrderConstraint l u chk) = [l, u]"
| "constraint_parameters (SumConstraint ps chk) = ps"
| "constraint_parameters (ParameterConstraint cd chk) = []"

fun constraint_dict_keys :: "('v, 'f) parameter_constraint \<Rightarrow> string list" where
  "constraint_dict_keys (ParameterConstraint cd chk) = map fst cd"
| "constraint_dict_keys c = map name (constraint_parameters c)"

subsection \<open>Search spaces\<close>

text \<open>
  One record for both classes, with the class as a tag (method calls dispatch on it).
  \<open>parameters\<close> is the dict \<open>_parameters\<close> in insertion order,
  \<open>all_parameter_names\<close> and \<open>root\<close> are the attributes that only
  \<open>HierarchicalSearchSpace.__init__\<close> sets (\<open>None\<close>: the attribute does not exist).
\<close>

datatype cls = SearchSpace_cls | HierarchicalSearchSpace_cls

record ('v, 'f) search_space =
  cls :: cls
  parameters :: "(string \<times> 'v parameter) list"
  parameter_constraints :: "('v, 'f) parameter_constraint list"
  all_parameter_names :: "string set option"
  root :: "'v parameter option"

section \<open>\<open>SearchSpace\<close>\<close>

subsection \<open>Constraint validation and installation\<close>

text \<open>The inner loop of \<open>_validate_parameter_constraints\<close> for a structural constraint.\<close>

fun validate_constraint_parameters ::
  "(string \<times> 'v parameter) list \<Rightarrow> 'v parameter list \<Rightarrow> error + unit" where
  "validate_constraint_parameters ps [] = Inr ()"
| "validate_constraint_parameters ps (p # rest) =
     (case map_of ps (name p) of
        None \<Rightarrow> Inl (ValueError_not_in_space (name p))
      | Some q \<Rightarrow>
          if \<not> param_eq p q then Inl (ValueError_definition_mismatch (name p))
          else validate_constraint_parameters ps rest)"

text \<open>The inner loop for any other constraint, over \<open>constraint_dict.keys()\<close>.\<close>

fun validate_constraint_names ::
  "(string \<times> 'v parameter) list \<Rightarrow> string list \<Rightarrow> error + unit" where
  "validate_constraint_names ps [] = Inr ()"
| "validate_constraint_names ps (n # rest) =
     (case map_of ps n of
        None \<Rightarrow> Inl (ValueError_not_in_space n)
      | Some q \<Rightarrow> validate_constraint_names ps rest)"

fun validate_constraint ::
  "(string \<times> 'v parameter) list \<Rightarrow> ('v, 'f) parameter_constraint \<Rightarrow> error + unit" where
  "validate_constraint ps (OrderConstraint l u chk) = validate_constraint_parameters ps [l, u]"
| "validate_constraint ps (SumConstraint qs chk) = validate_constraint_parameters ps qs"
| "validate_constraint ps (ParameterConstraint cd chk) = validate_constraint_names ps (map fst cd)"

fun validate_parameter_constraints ::
  "(string \<times> 'v parameter) list \<Rightarrow> ('v, 'f) parameter_constraint list \<Rightarrow> error + unit" where
  "validate_parameter_constraints ps [] = Inr ()"
| "validate_parameter_constraints ps (c # cs) =
     (case validate_constraint ps c of
        Inl e \<Rightarrow> Inl e
      | Inr u \<Rightarrow> validate_parameter_constraints ps cs)"

text \<open>\<open>self._parameters[n]\<close>: a dict lookup, which raises \<open>KeyError\<close> on a missing key.\<close>

definition dict_get :: "(string \<times> 'a) list \<Rightarrow> string \<Rightarrow> error + 'a" where
  "dict_get d n = (case map_of d n of None \<Rightarrow> Inl (KeyError n) | Some x \<Rightarrow> Inr x)"

text \<open>
  The rebinding loop of \<open>set_parameter_constraints\<close>. It assigns to the attributes of
  the constraint objects of the given list; the model returns the objects as they are
  after the loop.
\<close>

fun rebind_parameters ::
  "(string \<times> 'v parameter) list \<Rightarrow> 'v parameter list \<Rightarrow> error + 'v parameter list" where
  "rebind_parameters ps [] = Inr []"
| "rebind_parameters ps (p # rest) =
     (case dict_get ps (name p) of
        Inl e \<Rightarrow> Inl e
      | Inr q \<Rightarrow>
          (case rebind_parameters ps rest of
             Inl e \<Rightarrow> Inl e
           | Inr rest' \<Rightarrow> Inr (q # rest')))"

fun rebind_constraint ::
  "(string \<times> 'v parameter) list \<Rightarrow> ('v, 'f) parameter_constraint
     \<Rightarrow> error + ('v, 'f) parameter_constraint" where
  "rebind_constraint ps (OrderConstraint l u chk) =
     (case dict_get ps (name l) of
        Inl e \<Rightarrow> Inl e
      | Inr l' \<Rightarrow>
          (case dict_get ps (name u) of
             Inl e \<Rightarrow> Inl e
           | Inr u' \<Rightarrow> Inr (OrderConstraint l' u' chk)))"
| "rebind_constraint ps (SumConstraint qs chk) =
     (case rebind_parameters ps qs of
        Inl e \<Rightarrow> Inl e
      | Inr qs' \<Rightarrow> Inr (SumConstraint qs' chk))"
| "rebind_constraint ps (ParameterConstraint cd chk) = Inr (ParameterConstraint cd chk)"

fun rebind_constraints ::
  "(string \<times> 'v parameter) list \<Rightarrow> ('v, 'f) parameter_constraint list
     \<Rightarrow> error + ('v, 'f) parameter_constraint list" where
  "rebind_constraints ps [] = Inr []"
| "rebind_constraints ps (c # cs) =
     (case rebind_constraint ps c of
        Inl e \<Rightarrow> Inl e
      | Inr c' \<Rightarrow>
          (case rebind_constraints ps cs of
             Inl e \<Rightarrow> Inl e
           | Inr cs' \<Rightarrow> Inr (c' # cs')))"

text \<open>
  The two mutators return the exception, if one was raised, and the search space as it
  is when the call ends: \<open>(Some e, s)\<close> is a call that raised \<open>e\<close> and left \<open>s\<close>.
  \<open>set_parameter_constraints\<close> validates, then rebinds the constraints of the given
  list, then assigns the list to \<open>_parameter_constraints\<close>; an exception in one of the
  first two steps leaves the attribute as it was. \<open>add_parameter_constraints\<close> validates
  and extends the list.
\<close>

definition set_parameter_constraints ::
  "('v, 'f) search_space \<Rightarrow> ('v, 'f) parameter_constraint list
     \<Rightarrow> error option \<times> ('v, 'f) search_space" where
  "set_parameter_constraints self cs =
     (case validate_parameter_constraints (parameters self) cs of
        Inl e \<Rightarrow> (Some e, self)
      | Inr u \<Rightarrow>
          (case rebind_constraints (parameters self) cs of
             Inl e \<Rightarrow> (Some e, self)
           | Inr cs' \<Rightarrow> (None, self\<lparr>parameter_constraints := cs'\<rparr>)))"

definition add_parameter_constraints ::
  "('v, 'f) search_space \<Rightarrow> ('v, 'f) parameter_constraint list
     \<Rightarrow> error option \<times> ('v, 'f) search_space" where
  "add_parameter_constraints self cs =
     (case validate_parameter_constraints (parameters self) cs of
        Inl e \<Rightarrow> (Some e, self)
      | Inr u \<Rightarrow> (None, self\<lparr>parameter_constraints := parameter_constraints self @ cs\<rparr>))"

subsection \<open>Construction\<close>

text \<open>The dict comprehension \<open>{p.name: p for p in parameters}\<close>: a later entry with the
  same key replaces the value of the earlier one.\<close>

definition dict_of_parameters :: "'v parameter list \<Rightarrow> (string \<times> 'v parameter) list" where
  "dict_of_parameters ps = foldl (\<lambda>d p. AList.update (name p) p d) [] ps"

text \<open>
  \<open>SearchSpace.__init__\<close>, run on a fresh object of class \<open>c\<close> (the subclass
  constructor calls it through \<open>super()\<close>). \<open>len({p.name for p in parameters})\<close> is
  the number of distinct names. The attribute \<open>_parameter_constraints\<close> does not exist
  before \<open>set_parameter_constraints\<close> assigns it; the model starts it as the empty
  list, which that call does not read. An exception in a constructor leaves no object.
\<close>

definition SearchSpace_init_as ::
  "cls \<Rightarrow> 'v parameter list \<Rightarrow> ('v, 'f) parameter_constraint list option
     \<Rightarrow> error + ('v, 'f) search_space" where
  "SearchSpace_init_as c ps pcs =
     (if card (set (map name ps)) < length ps then Inl ValueError_names_not_unique
      else
        let self = \<lparr>cls = c, parameters = dict_of_parameters ps, parameter_constraints = [],
                     all_parameter_names = None, root = None\<rparr>
        in case set_parameter_constraints self (case pcs of None \<Rightarrow> [] | Some cs \<Rightarrow> cs) of
             (Some e, s) \<Rightarrow> Inl e
           | (None, s) \<Rightarrow> Inr s)"

definition SearchSpace_init ::
  "'v parameter list \<Rightarrow> ('v, 'f) parameter_constraint list option
     \<Rightarrow> error + ('v, 'f) search_space" where
  "SearchSpace_init = SearchSpace_init_as SearchSpace_cls"

subsection \<open>Item access\<close>

text \<open>\<open>__getitem__\<close>: \<open>self[parameter_name]\<close>.\<close>

definition getitem :: "('v, 'f) search_space \<Rightarrow> string \<Rightarrow> error + 'v parameter" where
  "getitem self parameter_name =
     (case map_of (parameters self) parameter_name of
        Some p \<Rightarrow> Inr p
      | None \<Rightarrow> Inl (ValueError_not_in_space parameter_name))"

subsection \<open>Membership\<close>

text \<open>The loop of \<open>check_membership\<close> over \<open>parameterization.items()\<close>.\<close>

fun check_values ::
  "(string \<times> 'v parameter) list \<Rightarrow> (string \<times> 'v option) list \<Rightarrow> bool \<Rightarrow> error + bool" where
  "check_values ps [] raise_error = Inr True"
| "check_values ps ((n, v) # rest) raise_error =
     (case map_of ps n of
        None \<Rightarrow> if raise_error then Inl (ValueError_not_defined n) else Inr False
      | Some q \<Rightarrow>
          if \<not> validate q v
          then (if raise_error then Inl (ValueError_invalid_value n) else Inr False)
          else check_values ps rest raise_error)"

text \<open>
  The items of \<open>numerical_param_dict\<close>, in the order of the comprehension. \<open>pyfloat\<close>
  is Python's \<open>float(value)\<close>, which raises \<open>TypeError\<close> on \<open>None\<close> and
  \<open>OverflowError\<close> on an integer too large for a float.
\<close>

fun numerical_items ::
  "('v option \<Rightarrow> error + 'f) \<Rightarrow> (string \<times> 'v parameter) list \<Rightarrow> (string \<times> 'v option) list
     \<Rightarrow> error + (string \<times> 'f) list" where
  "numerical_items pyfloat ps [] = Inr []"
| "numerical_items pyfloat ps ((n, v) # rest) =
     (case dict_get ps n of
        Inl e \<Rightarrow> Inl e
      | Inr q \<Rightarrow>
          if is_numeric q
          then (case pyfloat v of
                  Inl e \<Rightarrow> Inl e
                | Inr x \<Rightarrow>
                    (case numerical_items pyfloat ps rest of
                       Inl e \<Rightarrow> Inl e
                     | Inr d \<Rightarrow> Inr ((n, x) # d)))
          else numerical_items pyfloat ps rest)"

text \<open>A dict built from items one after the other, and \<open>dict.update\<close>.\<close>

definition dict_update :: "(string \<times> 'a) list \<Rightarrow> (string \<times> 'a) list \<Rightarrow> (string \<times> 'a) list" where
  "dict_update d items = foldl (\<lambda>d (k, v). AList.update k v d) d items"

text \<open>
  The loop of \<open>check_membership\<close> over \<open>self._parameter_constraints\<close>: an exception
  of \<open>constraint.check\<close> leaves the loop and the method, whatever \<open>raise_error\<close> is.
\<close>

fun check_constraints ::
  "('v, 'f) parameter_constraint list \<Rightarrow> (string \<times> 'f) list \<Rightarrow> bool \<Rightarrow> error + bool" where
  "check_constraints [] numerical_param_dict raise_error = Inr True"
| "check_constraints (constraint # rest) numerical_param_dict raise_error =
     (case check constraint numerical_param_dict of
        Inl e \<Rightarrow> Inl e
      | Inr ok \<Rightarrow>
          if \<not> ok
          then (if raise_error then Inl ValueError_constraint_violated else Inr False)
          else check_constraints rest numerical_param_dict raise_error)"

definition check_membership ::
  "('v option \<Rightarrow> error + 'f) \<Rightarrow> ('v, 'f) search_space \<Rightarrow> (string \<times> 'v option) list \<Rightarrow> bool
     \<Rightarrow> error + bool" where
  "check_membership pyfloat self parameterization raise_error =
     (if length parameterization \<noteq> length (parameters self)
      then (if raise_error
            then Inl (ValueError_wrong_length (length parameterization) (length (parameters self)))
            else Inr False)
      else
        case check_values (parameters self) parameterization raise_error of
          Inl e \<Rightarrow> Inl e
        | Inr False \<Rightarrow> Inr False
        | Inr True \<Rightarrow>
            (case numerical_items pyfloat (parameters self) parameterization of
               Inl e \<Rightarrow> Inl e
             | Inr items \<Rightarrow>
                 check_constraints (parameter_constraints self) (dict_update [] items)
                   raise_error))"

subsection \<open>Arms\<close>

text \<open>An \<open>Arm\<close>: its parameterization and its name, \<open>None\<close> when it has none.\<close>

record 'v arm =
  arm_parameters :: "(string \<times> 'v option) list"
  arm_name :: "string option"

text \<open>The loop of \<open>SearchSpace.cast_arm\<close>, filling \<open>new_parameters\<close>.\<close>

fun cast_loop ::
  "(string \<times> 'v parameter) list \<Rightarrow> (string \<times> 'v option) list \<Rightarrow> (string \<times> 'v option) list
     \<Rightarrow> error + (string \<times> 'v option) list" where
  "cast_loop ps new_parameters [] = Inr new_parameters"
| "cast_loop ps new_parameters ((n, v) # rest) =
     (case map_of ps n of
        None \<Rightarrow> cast_loop ps (AList.update n v new_parameters) rest
      | Some q \<Rightarrow>
          (case cast q v of
             Inl e \<Rightarrow> Inl e
           | Inr v' \<Rightarrow> cast_loop ps (AList.update n v' new_parameters) rest))"

definition SearchSpace_cast_arm :: "('v, 'f) search_space \<Rightarrow> 'v arm \<Rightarrow> error + 'v arm" where
  "SearchSpace_cast_arm self arm =
     (case cast_loop (parameters self) [] (arm_parameters arm) of
        Inl e \<Rightarrow> Inl e
      | Inr new_parameters \<Rightarrow>
          Inr \<lparr>arm_parameters = new_parameters, arm_name = arm_name arm\<rparr>)"

text \<open>The validation loop of \<open>construct_arm\<close> over the given parameters.\<close>

fun validate_overrides ::
  "(string \<times> 'v parameter) list \<Rightarrow> (string \<times> 'v option) list \<Rightarrow> error + unit" where
  "validate_overrides ps [] = Inr ()"
| "validate_overrides ps ((p_name, p_value) # rest) =
     (case map_of ps p_name of
        None \<Rightarrow> Inl (ValueError_not_in_space p_name)
      | Some q \<Rightarrow>
          if p_value \<noteq> None \<and> \<not> validate q p_value then Inl (ValueError_invalid_value p_name)
          else validate_overrides ps rest)"

definition construct_arm ::
  "('v, 'f) search_space \<Rightarrow> (string \<times> 'v option) list option \<Rightarrow> string option
     \<Rightarrow> error + 'v arm" where
  "construct_arm self params nm =
     (let final_parameters = dict_update [] (map (\<lambda>k. (k, None)) (map fst (parameters self)))
      in case params of
           None \<Rightarrow> Inr \<lparr>arm_parameters = final_parameters, arm_name = nm\<rparr>
         | Some given \<Rightarrow>
             (case validate_overrides (parameters self) given of
                Inl e \<Rightarrow> Inl e
              | Inr u \<Rightarrow>
                  Inr \<lparr>arm_parameters = dict_update final_parameters given, arm_name = nm\<rparr>))"

definition out_of_design_arm :: "('v, 'f) search_space \<Rightarrow> error + 'v arm" where
  "out_of_design_arm self = construct_arm self None None"

subsection \<open>Cloning\<close>

text \<open>
  \<open>clone\<close> calls the constructor of \<open>SearchSpace\<close>, whatever the class of \<open>self\<close>.
  \<open>pclone\<close> and \<open>cclone\<close> are the methods \<open>Parameter.clone\<close> and
  \<open>ParameterConstraint.clone\<close>.
\<close>

definition clone ::
  "('v parameter \<Rightarrow> 'v parameter) \<Rightarrow> (('v, 'f) parameter_constraint \<Rightarrow> ('v, 'f) parameter_constraint)
     \<Rightarrow> ('v, 'f) search_space \<Rightarrow> error + ('v, 'f) search_space" where
  "clone pclone cclone self =
     SearchSpace_init (map pclone (map snd (parameters self)))
       (Some (map cclone (parameter_constraints self)))"

section \<open>\<open>HierarchicalSearchSpace\<close>\<close>

subsection \<open>Overridden methods\<close>

text \<open>
  \<open>cast_arm\<close> and \<open>flatten\<close> as a caller reaches them: the subclass overrides
  \<open>cast_arm\<close> and defines \<open>flatten\<close>, which \<open>SearchSpace\<close> does not have.
\<close>

definition cast_arm :: "('v, 'f) search_space \<Rightarrow> 'v arm \<Rightarrow> error + 'v arm" where
  "cast_arm self arm =
     (case cls self of
        SearchSpace_cls \<Rightarrow> SearchSpace_cast_arm self arm
      | HierarchicalSearchSpace_cls \<Rightarrow> Inl NotImplementedError)"

definition flatten :: "('v, 'f) search_space \<Rightarrow> error + ('v, 'f) search_space" where
  "flatten self =
     (case cls self of
        SearchSpace_cls \<Rightarrow> Inl (AttributeError ''flatten'')
      | HierarchicalSearchSpace_cls \<Rightarrow> Inl NotImplementedError)"

subsection \<open>Root discovery\<close>

text \<open>The two nested loops of \<open>_find_root\<close> that fill \<open>dependent_parameter_names\<close>.\<close>

definition dependent_parameter_names :: "(string \<times> 'v parameter) list \<Rightarrow> string set" where
  "dependent_parameter_names ps =
     fold (\<lambda>parameter acc.
             if is_hierarchical parameter
             then fold (\<lambda>deps acc'. acc' \<union> set deps) (map snd (dependents parameter)) acc
             else acc)
          (map snd ps) {}"

text \<open>
  \<open>s.pop()\<close> followed by the lookup of the popped name in \<open>self.parameters\<close>. It is
  only reached with a set of one element, which \<open>pop\<close> returns; the model finds it
  among the keys of the dict, and a name that is no key is a \<open>KeyError\<close>.
\<close>

definition pop_lookup :: "(string \<times> 'a) list \<Rightarrow> string set \<Rightarrow> error + 'a" where
  "pop_lookup d s =
     (case find (\<lambda>(k, x). k \<in> s) d of
        Some (k, x) \<Rightarrow> Inr x
      | None \<Rightarrow> Inl (KeyError ''pop''))"

definition find_root :: "('v, 'f) search_space \<Rightarrow> error + 'v parameter" where
  "find_root self =
     (case all_parameter_names self of
        None \<Rightarrow> Inl (AttributeError ''_all_parameter_names'')
      | Some names \<Rightarrow>
          let dependent = dependent_parameter_names (parameters self);
              root_parameters = names - dependent
          in if card root_parameters \<noteq> 1
             then Inl (NotImplementedError_no_root dependent (length (parameters self))
                         root_parameters)
             else pop_lookup (parameters self) root_parameters)"

subsection \<open>Tree validation\<close>

definition disjoint_union :: "string set \<Rightarrow> string set \<Rightarrow> error + string set" where
  "disjoint_union set1 set2 =
     (if set1 \<inter> set2 \<noteq> {} then Inl (UserInputError_shared (set1 \<inter> set2))
      else Inr (set1 \<union> set2))"

text \<open>
  \<open>reduce\<close> over the generator \<open>visited_in_subtrees\<close>: each subtree is computed when
  the fold reaches it, and joined to what was gathered before. \<open>sub\<close> is the body of
  the generator, \<open>_check_subtree(root=self[param_name])\<close>.
\<close>

fun reduce_disjoint_union ::
  "(string \<Rightarrow> error + string set) \<Rightarrow> string set \<Rightarrow> string list \<Rightarrow> error + string set" where
  "reduce_disjoint_union sub acc [] = Inr acc"
| "reduce_disjoint_union sub acc (param_name # rest) =
     (case sub param_name of
        Inl e \<Rightarrow> Inl e
      | Inr set2 \<Rightarrow>
          (case disjoint_union acc set2 of
             Inl e \<Rightarrow> Inl e
           | Inr acc' \<Rightarrow> reduce_disjoint_union sub acc' rest))"

text \<open>
  An exception that leaves the body of a generator: a \<open>StopIteration\<close> is replaced by
  a \<open>RuntimeError\<close>, any other exception passes.
\<close>

definition generator_exit :: "error \<Rightarrow> error" where
  "generator_exit e =
     (case e of StopIteration \<Rightarrow> RuntimeError_generator_raised_StopIteration | _ \<Rightarrow> e)"

text \<open>
  \<open>_check_subtree\<close>. The recursion follows the names in \<open>dependents\<close>, which may lead
  back to a parameter already on the path; Python then stops with \<open>RecursionError\<close>
  when the call stack reaches its limit. \<open>limit\<close> is the depth still available.
  \<open>next\<close> on a generator that yields nothing raises \<open>StopIteration\<close>. The recursive
  call is made in the body of the generator \<open>visited_in_subtrees\<close>.
\<close>

fun check_subtree ::
  "nat \<Rightarrow> ('v, 'f) search_space \<Rightarrow> 'v parameter \<Rightarrow> error + string set" where
  "check_subtree 0 self rt = Inl RecursionError"
| "check_subtree (Suc limit) self rt =
     (if \<not> is_hierarchical rt then Inr {name rt}
      else
        let sub = (\<lambda>param_name.
                     case getitem self param_name of
                       Inl e \<Rightarrow> Inl (generator_exit e)
                     | Inr p \<Rightarrow>
                         (case check_subtree limit self p of
                            Inl e \<Rightarrow> Inl (generator_exit e)
                          | Inr visited \<Rightarrow> Inr visited))
        in case concat (map snd (dependents rt)) of
             [] \<Rightarrow> Inl StopIteration
           | first # rest \<Rightarrow>
               (case sub first of
                  Inl e \<Rightarrow> Inl e
                | Inr initial \<Rightarrow>
                    (case reduce_disjoint_union sub initial rest of
                       Inl e \<Rightarrow> Inl e
                     | Inr subtrees \<Rightarrow> Inr ({name rt} \<union> subtrees))))"

definition validate_hierarchical_structure ::
  "nat \<Rightarrow> ('v, 'f) search_space \<Rightarrow> error + unit" where
  "validate_hierarchical_structure limit self =
     (case root self of
        None \<Rightarrow> Inl (AttributeError ''_root'')
      | Some rt \<Rightarrow>
          (case check_subtree limit self rt of
             Inl e \<Rightarrow> Inl e
           | Inr visited \<Rightarrow>
               (case all_parameter_names self of
                  None \<Rightarrow> Inl (AttributeError ''_all_parameter_names'')
                | Some names \<Rightarrow>
                    if card (names - visited) \<noteq> 0
                    then Inl (UserInputError_unreachable (names - visited))
                    else Inr ())))"

subsection \<open>Construction\<close>

definition HierarchicalSearchSpace_init ::
  "nat \<Rightarrow> 'v parameter list \<Rightarrow> ('v, 'f) parameter_constraint list option
     \<Rightarrow> error + ('v, 'f) search_space" where
  "HierarchicalSearchSpace_init limit ps pcs =
     (case SearchSpace_init_as HierarchicalSearchSpace_cls ps pcs of
        Inl e \<Rightarrow> Inl e
      | Inr s0 \<Rightarrow>
          (let s1 = (s0\<lparr>all_parameter_names := Some (set (map fst (parameters s0)))\<rparr>)
           in (case find_root s1 of
                 Inl e \<Rightarrow> Inl e
               | Inr rt \<Rightarrow>
                   (let s2 = (s1\<lparr>root := Some rt\<rparr>)
                    in (case validate_hierarchical_structure limit s2 of
                          Inl e \<Rightarrow> Inl e
                        | Inr u \<Rightarrow> Inr s2)))))"

subsection \<open>Well-formed constraints\<close>

text \<open>
  A constraint is bound to the dict \<open>ps\<close> when every parameter it refers to is the
  very object that \<open>ps\<close> stores under its name.
\<close>

definition bound_to :: "(string \<times> 'v parameter) list \<Rightarrow> ('v, 'f) parameter_constraint \<Rightarrow> bool" where
  "bound_to ps c = (\<forall>p \<in> set (constraint_parameters c). map_of ps (name p) = Some p)"

text \<open>
  What \<open>_validate_parameter_constraints\<close> asks of one constraint: every name it
  mentions is a key of \<open>ps\<close>, and every parameter it refers to equals (\<open>==\<close>) the
  one stored under its name.
\<close>

definition constraint_valid :: "(string \<times> 'v parameter) list \<Rightarrow> ('v, 'f) parameter_constraint \<Rightarrow> bool" where
  "constraint_valid ps c =
     ((\<forall>n \<in> set (constraint_dict_keys c). map_of ps n \<noteq> None) \<and>
      (\<forall>p \<in> set (constraint_parameters c). \<forall>q. map_of ps (name p) = Some q \<longrightarrow> param_eq p q))"

subsection \<open>The numeric subset of a parameterization\<close>

text \<open>
  The entries of a parameterization whose name is a parameter of the space that has
  \<open>is_numeric\<close>, and the relation between such entries and their coercion to floating
  point, entry by entry.
\<close>

definition numeric_subset ::
  "(string \<times> 'v parameter) list \<Rightarrow> (string \<times> 'v option) list \<Rightarrow> (string \<times> 'v option) list" where
  "numeric_subset ps p =
     filter (\<lambda>(n, v). case map_of ps n of Some q \<Rightarrow> is_numeric q | None \<Rightarrow> False) p"

definition coerced ::
  "('v option \<Rightarrow> error + 'f) \<Rightarrow> (string \<times> 'v option) list \<Rightarrow> (string \<times> 'f) list \<Rightarrow> bool" where
  "coerced pyfloat xs items = list_all2 (\<lambda>(n, v) (n', x). n' = n \<and> pyfloat v = Inr x) xs items"

subsection \<open>The value that \<open>cast_arm\<close> stores for one entry\<close>

text \<open>The two branches of the loop body of \<open>cast_arm\<close>, as a function of the entry.\<close>

definition cast_value ::
  "(string \<times> 'v parameter) list \<Rightarrow> string \<Rightarrow> 'v option \<Rightarrow> error + 'v option" where
  "cast_value ps n v = (case map_of ps n of None \<Rightarrow> Inr v | Some q \<Rightarrow> cast q v)"

subsection \<open>Notions used to state the properties of the hierarchy\<close>

text \<open>
  The names listed as dependents by the hierarchical parameters of a list, under any
  value.
\<close>

definition dependent_names :: "'v parameter list \<Rightarrow> string set" where
  "dependent_names ps =
     (\<Union>p \<in> {p \<in> set ps. is_hierarchical p}. \<Union>deps \<in> snd ` set (dependents p). set deps)"

text \<open>
  One element of the generator \<open>visited_in_subtrees\<close>:
  \<open>_check_subtree(root=self[param_name])\<close>, with the depth that is left.
\<close>

definition visited_in_subtree ::
  "nat \<Rightarrow> ('v, 'f) search_space \<Rightarrow> string \<Rightarrow> error + string set" where
  "visited_in_subtree limit self param_name =
     (case getitem self param_name of
        Inl e \<Rightarrow> Inl (generator_exit e)
      | Inr p \<Rightarrow>
          (case check_subtree limit self p of
             Inl e \<Rightarrow> Inl (generator_exit e)
           | Inr visited \<Rightarrow> Inr visited))"

text \<open>Sets that are disjoint two by two, by position in the list.\<close>

definition pairwise_disjoint :: "'a set list \<Rightarrow> bool" where
  "pairwise_disjoint vs = (\<forall>j < length vs. \<forall>i < j. vs ! i \<inter> vs ! j = {})"

text \<open>The names that two sets of the list share.\<close>

definition shared_names :: "'a set list \<Rightarrow> 'a set" where
  "shared_names vs = {x. \<exists>j < length vs. \<exists>i < j. x \<in> vs ! i \<and> x \<in> vs ! j}"

section \<open>Example objects\<close>

text \<open>Concrete parameters on which the theorems below are instantiated.\<close>

definition example_leaf :: "nat \<Rightarrow> string \<Rightarrow> nat parameter" where
  "example_leaf i n =
     \<lparr>obj_id = i, name = n, is_numeric = True, is_hierarchical = False, dependents = [],
      validate = (\<lambda>v. case v of None \<Rightarrow> False | Some x \<Rightarrow> x \<le> 10), cast = Inr\<rparr>"

definition example_choice :: "nat \<Rightarrow> string \<Rightarrow> (nat option \<times> string list) list \<Rightarrow> nat parameter" where
  "example_choice i n deps =
     \<lparr>obj_id = i, name = n, is_numeric = False, is_hierarchical = True, dependents = deps,
      validate = (\<lambda>v. v \<in> set (map fst deps)), cast = Inr\<rparr>"

definition example_space :: "(nat, int) search_space" where
  "example_space =
     \<lparr>cls = SearchSpace_cls,
      parameters = [(''x'', example_leaf 1 ''x''), (''y'', example_leaf 2 ''y'')],
      parameter_constraints = [], all_parameter_names = None, root = None\<rparr>"

definition example_order_copy :: "(nat, int) parameter_constraint" where
  "example_order_copy =
     OrderConstraint (example_leaf 11 ''x'') (example_leaf 12 ''y'') (\<lambda>d. Inr True)"

definition example_unknown_name :: "(nat, int) parameter_constraint" where
  "example_unknown_name = ParameterConstraint [(''z'', 1)] (\<lambda>d. Inr True)"

text \<open>
  \<open>float\<close> on \<open>None\<close> and on the integers from 0 on, with the integer that the
  resulting double equals as its value. \<open>float(n)\<close> is the double nearest to \<open>n\<close>,
  the one with the even significand of 53 bits when two are equally near; it is \<open>n\<close>
  itself up to \<open>2 ^ 53\<close>. The largest double is \<open>2 ^ 1024 - 2 ^ 971\<close>, and
  \<open>float(n)\<close> raises \<open>OverflowError\<close> from \<open>2 ^ 1024 - 2 ^ 970\<close> on, where rounding
  would reach \<open>2 ^ 1024\<close>. \<open>float(None)\<close> raises \<open>TypeError\<close>.
\<close>

fun example_bit_length :: "nat \<Rightarrow> nat" where
  "example_bit_length n = (if n = 0 then 0 else Suc (example_bit_length (n div 2)))"

declare example_bit_length.simps [simp del]

definition example_nearest_double :: "nat \<Rightarrow> nat" where
  "example_nearest_double n =
     (if n < 2 ^ 53 then n
      else
        let e = example_bit_length n - 53; q = n div 2 ^ e; r = n mod 2 ^ e
        in if 2 ^ e < 2 * r \<or> (2 * r = 2 ^ e \<and> odd q) then (q + 1) * 2 ^ e else q * 2 ^ e)"

definition example_float :: "nat option \<Rightarrow> error + int" where
  "example_float v =
     (case v of
        None \<Rightarrow> Inl TypeError
      | Some n \<Rightarrow>
          if 2 ^ 1024 - 2 ^ 970 \<le> n then Inl OverflowError
          else Inr (int (example_nearest_double n)))"

text \<open>
  A numeric choice parameter \<open>c\<close> with the given values, and the object that
  \<open>SearchSpace([c])\<close> leaves.
\<close>

definition example_numeric_choice :: "nat option list \<Rightarrow> nat parameter" where
  "example_numeric_choice vals =
     \<lparr>obj_id = 3, name = ''c'', is_numeric = True, is_hierarchical = False, dependents = [],
      validate = (\<lambda>v. v \<in> set vals), cast = Inr\<rparr>"

definition example_choice_space :: "nat option list \<Rightarrow> (nat, int) search_space" where
  "example_choice_space vals =
     \<lparr>cls = SearchSpace_cls, parameters = [(''c'', example_numeric_choice vals)],
      parameter_constraints = [], all_parameter_names = None, root = None\<rparr>"

text \<open>
  The \<open>check\<close> of a linear constraint with the weights \<open>constraint_dict\<close> and the
  bound \<open>bound\<close>, on integral values: it raises \<open>ValueError\<close> for the first name of
  \<open>constraint_dict\<close> that the given dict does not hold, and otherwise tells whether
  the weighted sum of the values is at most the bound.
\<close>

definition example_linear_check ::
  "(string \<times> int) list \<Rightarrow> int \<Rightarrow> (string \<times> int) list \<Rightarrow> error + bool" where
  "example_linear_check constraint_dict bound parameter_dict =
     (case find (\<lambda>parameter_name. map_of parameter_dict parameter_name = None)
             (map fst constraint_dict) of
        Some parameter_name \<Rightarrow> Inl (ValueError_not_present parameter_name)
      | None \<Rightarrow>
          Inr ((\<Sum>(param, weight) \<leftarrow> constraint_dict.
                  (case map_of parameter_dict param of Some x \<Rightarrow> x | None \<Rightarrow> 0) * weight)
               \<le> bound))"

text \<open>
  The space of \<open>x\<close> and \<open>y\<close> with the order constraint \<open>x \<le> y\<close>, which is the linear
  constraint \<open>x - y \<le> 0\<close>.
\<close>

definition example_order :: "(nat, int) parameter_constraint" where
  "example_order =
     OrderConstraint (example_leaf 1 ''x'') (example_leaf 2 ''y'')
       (example_linear_check [(''x'', 1), (''y'', - 1)] 0)"

definition example_ordered_space :: "(nat, int) search_space" where
  "example_ordered_space = example_space\<lparr>parameter_constraints := [example_order]\<rparr>"

text \<open>
  A choice parameter \<open>s\<close> of a type that is not numeric, with its two values written 0
  and 1, a linear constraint that names it, and the object that
  \<open>SearchSpace([x, s], [constraint])\<close> leaves.
\<close>

definition example_nominal :: "nat parameter" where
  "example_nominal =
     \<lparr>obj_id = 5, name = ''s'', is_numeric = False, is_hierarchical = False, dependents = [],
      validate = (\<lambda>v. v = Some 0 \<or> v = Some 1), cast = Inr\<rparr>"

definition example_nominal_constraint :: "(nat, int) parameter_constraint" where
  "example_nominal_constraint =
     ParameterConstraint [(''s'', 1)] (example_linear_check [(''s'', 1)] 1)"

definition example_mixed_space :: "(nat, int) search_space" where
  "example_mixed_space =
     \<lparr>cls = SearchSpace_cls,
      parameters = [(''x'', example_leaf 1 ''x''), (''s'', example_nominal)],
      parameter_constraints = [example_nominal_constraint],
      all_parameter_names = None, root = None\<rparr>"

text \<open>A space of one parameter whose \<open>cast\<close> changes values (it truncates them at 10).\<close>

definition example_truncating :: "nat parameter" where
  "example_truncating =
     \<lparr>obj_id = 4, name = ''x'', is_numeric = True, is_hierarchical = False, dependents = [],
      validate = (\<lambda>v. True), cast = (\<lambda>v. Inr (map_option (\<lambda>x. min x 10) v))\<rparr>"

definition example_truncating_space :: "(nat, int) search_space" where
  "example_truncating_space =
     \<lparr>cls = SearchSpace_cls, parameters = [(''x'', example_truncating)],
      parameter_constraints = [], all_parameter_names = None, root = None\<rparr>"

text \<open>
  Floats as \<open>==\<close> on dicts tells them apart. \<open>Finite n\<close> is the float of the integer
  \<open>n\<close>. \<open>NaN i\<close> is the not-a-number object of identity \<open>i\<close>: not-a-number is equal
  to no float, itself included, and two dicts agree on a value when it is the same object
  in both or equal in both, so two arms agree on a not-a-number only when they hold the
  same object. \<open>example_rounding\<close> is a float range parameter \<open>x\<close> over 0 to 10 that
  rounds: its \<open>cast\<close> is \<open>round(float(value), digits)\<close>, which returns an integral
  float as it is and, for a not-a-number, a new not-a-number object.
\<close>

datatype example_number = Finite nat | NaN nat

definition example_rounding :: "example_number parameter" where
  "example_rounding =
     \<lparr>obj_id = 6, name = ''x'', is_numeric = True, is_hierarchical = False, dependents = [],
      validate = (\<lambda>v. case v of Some (Finite n) \<Rightarrow> n \<le> 10 | _ \<Rightarrow> False),
      cast = (\<lambda>v. case v of
                None \<Rightarrow> Inr None
              | Some (Finite n) \<Rightarrow> Inr (Some (Finite n))
              | Some (NaN i) \<Rightarrow> Inr (Some (NaN (Suc i))))\<rparr>"

definition example_rounding_space :: "(example_number, int) search_space" where
  "example_rounding_space =
     \<lparr>cls = SearchSpace_cls, parameters = [(''x'', example_rounding)],
      parameter_constraints = [], all_parameter_names = None, root = None\<rparr>"

text \<open>
  Hierarchies. \<open>example_tree\<close> is the tree of the specification: \<open>A\<close> with
  dependents \<open>{1: [B], 2: [C]}\<close> and the leaves \<open>B\<close> and \<open>C\<close>.
  \<open>example_two_roots\<close> is its second example: the chain \<open>A\<close>, \<open>B\<close>, \<open>C\<close> and an
  independent \<open>D\<close>. In \<open>example_diamond\<close> the branches \<open>B\<close> and \<open>C\<close> of \<open>A\<close> both
  list \<open>D\<close>. In \<open>example_orphans\<close> the root \<open>R\<close> is a leaf, and \<open>X\<close> and \<open>Y\<close>
  list each other.
\<close>

definition example_tree :: "nat parameter list" where
  "example_tree =
     [example_choice 1 ''A'' [(Some 1, [''B'']), (Some 2, [''C''])],
      example_leaf 2 ''B'', example_leaf 3 ''C'']"

definition example_two_roots :: "nat parameter list" where
  "example_two_roots =
     [example_choice 1 ''A'' [(Some 1, [''B''])], example_choice 2 ''B'' [(Some 1, [''C''])],
      example_leaf 3 ''C'', example_leaf 4 ''D'']"

definition example_diamond :: "nat parameter list" where
  "example_diamond =
     [example_choice 1 ''A'' [(Some 1, [''B'']), (Some 2, [''C''])],
      example_choice 2 ''B'' [(Some 1, [''D''])], example_choice 3 ''C'' [(Some 1, [''D''])],
      example_leaf 4 ''D'']"

definition example_orphans :: "nat parameter list" where
  "example_orphans =
     [example_leaf 1 ''R'', example_choice 2 ''X'' [(Some 1, [''Y''])],
      example_choice 3 ''Y'' [(Some 1, [''X''])]]"

text \<open>The object that \<open>SearchSpace.__init__\<close> leaves for a list of distinct names.\<close>

definition example_base :: "cls \<Rightarrow> nat parameter list \<Rightarrow> (nat, int) search_space" where
  "example_base c ps =
     \<lparr>cls = c, parameters = map (\<lambda>p. (name p, p)) ps, parameter_constraints = [],
      all_parameter_names = None, root = None\<rparr>"

text \<open>
  \<open>clone\<close> on a parameter gives a new object with the same attributes; \<open>clone\<close> on a
  constraint clones the parameters it refers to.
\<close>

definition example_clone_parameter :: "nat parameter \<Rightarrow> nat parameter" where
  "example_clone_parameter p = p\<lparr>obj_id := obj_id p + 100\<rparr>"

fun example_clone_constraint :: "(nat, int) parameter_constraint \<Rightarrow> (nat, int) parameter_constraint" where
  "example_clone_constraint (OrderConstraint l u chk) =
     OrderConstraint (example_clone_parameter l) (example_clone_parameter u) chk"
| "example_clone_constraint (SumConstraint ps chk) =
     SumConstraint (map example_clone_parameter ps) chk"
| "example_clone_constraint (ParameterConstraint cd chk) = ParameterConstraint cd chk"

text \<open>
  The hierarchical search space constructed from \<open>example_tree\<close> and an order
  constraint over copies of \<open>B\<close> and \<open>C\<close>.
\<close>

definition example_tree_order :: "nat \<Rightarrow> nat \<Rightarrow> (nat, int) parameter_constraint" where
  "example_tree_order i j =
     OrderConstraint (example_leaf i ''B'') (example_leaf j ''C'') (\<lambda>d. Inr True)"

definition example_tree_space :: "(nat, int) search_space" where
  "example_tree_space =
     \<lparr>cls = HierarchicalSearchSpace_cls,
      parameters = map (\<lambda>p. (name p, p)) example_tree,
      parameter_constraints = [example_tree_order 2 3],
      all_parameter_names = Some {''A'', ''B'', ''C''},
      root = Some (example_choice 1 ''A'' [(Some 1, [''B'']), (Some 2, [''C''])])\<rparr>"

section \<open>Construction and constraint installation\<close>

lemma names_not_unique_iff:
  "card (set (map f xs)) < length xs \<longleftrightarrow> \<not> distinct (map f xs)"
proof
  assume "card (set (map f xs)) < length xs"
  then show "\<not> distinct (map f xs)" using distinct_card[of "map f xs"] by auto
next
  assume "\<not> distinct (map f xs)"
  then have "card (set (map f xs)) \<noteq> length (map f xs)" using card_distinct by blast
  then show "card (set (map f xs)) < length xs" using card_length[of "map f xs"] by simp
qed

lemma update_fresh: "k \<notin> fst ` set d \<Longrightarrow> AList.update k v d = d @ [(k, v)]"
  by (induction d) auto

lemma dict_of_parameters_acc:
  "distinct (map fst d @ map name ps) \<Longrightarrow>
   foldl (\<lambda>d p. AList.update (name p) p d) d ps = d @ map (\<lambda>p. (name p, p)) ps"
proof (induction ps arbitrary: d)
  case Nil
  then show ?case by simp
next
  case (Cons p ps)
  have fresh: "name p \<notin> fst ` set d" using Cons.prems by auto
  have "distinct (map fst (d @ [(name p, p)]) @ map name ps)" using Cons.prems by auto
  from Cons.IH[OF this] show ?case by (simp add: update_fresh[OF fresh])
qed

lemma dict_of_parameters_distinct:
  "distinct (map name ps) \<Longrightarrow> dict_of_parameters ps = map (\<lambda>p. (name p, p)) ps"
  unfolding dict_of_parameters_def using dict_of_parameters_acc[of "[]" ps] by simp

lemma rebind_parameters_ok:
  "validate_constraint_parameters ps qs = Inr () \<Longrightarrow> \<exists>qs'. rebind_parameters ps qs = Inr qs'"
  by (induction qs) (auto simp: dict_get_def split: option.splits if_splits)

lemma rebind_constraint_ok:
  "validate_constraint ps c = Inr () \<Longrightarrow> \<exists>c'. rebind_constraint ps c = Inr c'"
proof (cases c)
  case (OrderConstraint l u chk)
  assume "validate_constraint ps c = Inr ()"
  with OrderConstraint show ?thesis
    by (auto simp: dict_get_def split: option.splits if_splits)
next
  case (SumConstraint qs chk)
  assume "validate_constraint ps c = Inr ()"
  with SumConstraint obtain qs' where "rebind_parameters ps qs = Inr qs'"
    using rebind_parameters_ok[of ps qs] by auto
  with SumConstraint show ?thesis by simp
next
  case (ParameterConstraint cd chk)
  then show ?thesis by simp
qed

lemma rebind_constraints_ok:
  "validate_parameter_constraints ps cs = Inr () \<Longrightarrow> \<exists>cs'. rebind_constraints ps cs = Inr cs'"
proof (induction cs)
  case Nil
  then show ?case by simp
next
  case (Cons c cs)
  from Cons.prems have v: "validate_constraint ps c = Inr ()"
    and vs: "validate_parameter_constraints ps cs = Inr ()"
    by (auto split: sum.splits)
  from rebind_constraint_ok[OF v] Cons.IH[OF vs] show ?case by auto
qed

lemma names_not_unique_image:
  "card (f ` set xs) < length xs \<longleftrightarrow> \<not> distinct (map f xs)"
  using names_not_unique_iff[of f xs] by simp


lemma SearchSpace_init_parameters:
  assumes "SearchSpace_init_as c ps pcs = Inr s"
  shows "distinct (map name ps)" and "parameters s = map (\<lambda>p. (name p, p)) ps" and "cls s = c"
    and "all_parameter_names s = None" and "root s = None"
proof -
  from assms show d: "distinct (map name ps)"
    by (auto simp: SearchSpace_init_as_def names_not_unique_image split: if_splits)
  from assms show "parameters s = map (\<lambda>p. (name p, p)) ps"
    by (auto simp: SearchSpace_init_as_def set_parameter_constraints_def Let_def
        dict_of_parameters_distinct[OF d] split: if_splits sum.splits)
  from assms show "cls s = c"
    by (auto simp: SearchSpace_init_as_def set_parameter_constraints_def Let_def
        split: if_splits sum.splits)
  from assms show "all_parameter_names s = None"
    by (auto simp: SearchSpace_init_as_def set_parameter_constraints_def Let_def
        split: if_splits sum.splits)
  from assms show "root s = None"
    by (auto simp: SearchSpace_init_as_def set_parameter_constraints_def Let_def
        split: if_splits sum.splits)
qed

text \<open>
  C8. \<open>SearchSpace\<close> construction fails (with the \<open>ValueError\<close> of the first check of
  \<open>__init__\<close>) whenever two parameters of the input list share a name, whatever the
  constraints; for every input list with pairwise distinct names, construction from the
  list succeeds and the parameters mapping has one entry for each input parameter, under
  its name and in the order of the list; and every successful construction, with
  constraints or without, has as many entries as the input list.
\<close>

theorem SearchSpace_init_unique_names:
  "(\<not> distinct (map name ps) \<longrightarrow> SearchSpace_init ps pcs = Inl ValueError_names_not_unique) \<and>
   (distinct (map name ps) \<longrightarrow>
      (\<exists>s. SearchSpace_init ps None = Inr s \<and> parameters s = map (\<lambda>p. (name p, p)) ps \<and>
           length (parameters s) = length ps)) \<and>
   (\<forall>s. SearchSpace_init ps pcs = Inr s \<longrightarrow>
      distinct (map name ps) \<and> length (parameters s) = length ps)"
proof (intro conjI impI allI)
  assume "\<not> distinct (map name ps)"
  then show "SearchSpace_init ps pcs = Inl ValueError_names_not_unique"
    by (simp add: SearchSpace_init_def SearchSpace_init_as_def names_not_unique_image)
next
  assume "distinct (map name ps)"
  then show "\<exists>s. SearchSpace_init ps None = Inr s \<and> parameters s = map (\<lambda>p. (name p, p)) ps \<and>
           length (parameters s) = length ps"
    by (simp add: SearchSpace_init_def SearchSpace_init_as_def names_not_unique_image
      set_parameter_constraints_def dict_of_parameters_distinct Let_def)
next
  fix s assume "SearchSpace_init ps pcs = Inr s"
  then show "distinct (map name ps)" "length (parameters s) = length ps"
    using SearchSpace_init_parameters[of SearchSpace_cls ps pcs s]
    by (simp_all add: SearchSpace_init_def)
qed

theorem SearchSpace_init_unique_names_witness:
  "\<not> distinct (map name [example_leaf 1 ''x'', example_leaf 2 ''x'']) \<and>
   SearchSpace_init [example_leaf 1 ''x'', example_leaf 2 ''x'']
     (None :: (nat, int) parameter_constraint list option) = Inl ValueError_names_not_unique \<and>
   distinct (map name [example_leaf 1 ''x'', example_leaf 2 ''y'']) \<and>
   (\<exists>s :: (nat, int) search_space.
      SearchSpace_init [example_leaf 1 ''x'', example_leaf 2 ''y''] None = Inr s \<and>
      length (parameters s) = length [example_leaf 1 ''x'', example_leaf 2 ''y''])"
proof -
  have d1: "\<not> distinct (map name [example_leaf 1 ''x'', example_leaf 2 ''x''])"
    by (simp add: example_leaf_def)
  have d2: "distinct (map name [example_leaf 1 ''x'', example_leaf 2 ''y''])"
    by (simp add: example_leaf_def)
  show ?thesis
    using d1 d2
      SearchSpace_init_unique_names[of "[example_leaf 1 ''x'', example_leaf 2 ''x'']" None]
      SearchSpace_init_unique_names[of "[example_leaf 1 ''x'', example_leaf 2 ''y'']" None]
    by blast
qed


lemma param_eq_name: "param_eq p q \<Longrightarrow> name p = name q"
  unfolding param_eq_def by (metis parameter.select_convs(2) parameter.surjective parameter.update_convs(1))

lemma param_eq_refl: "param_eq p p"
  by (simp add: param_eq_def)

lemma rebind_parameters_bound:
  assumes "validate_constraint_parameters ps qs = Inr ()" and "rebind_parameters ps qs = Inr qs'"
  shows "list_all2 (\<lambda>q q'. param_eq q q' \<and> map_of ps (name q) = Some q') qs qs'"
  using assms
proof (induction qs arbitrary: qs')
  case Nil
  then show ?case by simp
next
  case (Cons q qs)
  then show ?case
    by (auto simp: dict_get_def split: option.splits if_splits sum.splits)
qed

lemma rebind_constraint_bound:
  assumes "validate_constraint ps c = Inr ()" and "rebind_constraint ps c = Inr c'"
  shows "bound_to ps c'"
proof (cases c)
  case (OrderConstraint l u chk)
  with assms show ?thesis
    by (auto simp: bound_to_def dict_get_def split: option.splits if_splits sum.splits)
      (metis param_eq_name)+
next
  case (SumConstraint qs chk)
  with assms obtain qs' where r: "rebind_parameters ps qs = Inr qs'" and c': "c' = SumConstraint qs' chk"
    by (auto split: sum.splits)
  from assms SumConstraint have v: "validate_constraint_parameters ps qs = Inr ()" by simp
  from rebind_parameters_bound[OF v r]
  have "\<forall>q' \<in> set qs'. \<exists>q. param_eq q q' \<and> map_of ps (name q) = Some q'"
    by (fastforce simp: list_all2_conv_all_nth in_set_conv_nth)
  then show ?thesis unfolding bound_to_def c' by (simp, metis param_eq_name)
next
  case (ParameterConstraint cd chk)
  with assms show ?thesis by (auto simp: bound_to_def)
qed

lemma rebind_constraints_bound:
  assumes "validate_parameter_constraints ps cs = Inr ()" and "rebind_constraints ps cs = Inr cs'"
  shows "\<forall>c' \<in> set cs'. bound_to ps c'"
  using assms
proof (induction cs arbitrary: cs')
  case Nil
  then show ?case by simp
next
  case (Cons c cs)
  from Cons.prems obtain c1 cs1 where
    v: "validate_constraint ps c = Inr ()" and vs: "validate_parameter_constraints ps cs = Inr ()"
    and r: "rebind_constraint ps c = Inr c1" and rs: "rebind_constraints ps cs = Inr cs1"
    and e: "cs' = c1 # cs1"
    by (auto split: sum.splits)
  from rebind_constraint_bound[OF v r] Cons.IH[OF vs rs] show ?case by (simp add: e)
qed

text \<open>
  X1. After a successful \<open>set_parameter_constraints\<close> the parameters of the space are
  as before, the installed list has one constraint for each given one, and every
  parameter that an installed constraint refers to is the instance that the space stores
  under its name.
\<close>

theorem set_parameter_constraints_rebinds:
  assumes "set_parameter_constraints self cs = (None, s')"
  shows "parameters s' = parameters self \<and>
         length (parameter_constraints s') = length cs \<and>
         (\<forall>c \<in> set (parameter_constraints s'). \<forall>p \<in> set (constraint_parameters c).
            map_of (parameters s') (name p) = Some p)"
proof -
  from assms have v: "validate_parameter_constraints (parameters self) cs = Inr ()"
    by (auto simp: set_parameter_constraints_def split: sum.splits)
  from assms obtain cs' where r: "rebind_constraints (parameters self) cs = Inr cs'"
    and s': "s' = self\<lparr>parameter_constraints := cs'\<rparr>"
    by (auto simp: set_parameter_constraints_def split: sum.splits)
  have "parameters s' = parameters self" by (simp add: s')
  moreover from r have "length (parameter_constraints s') = length cs"
    unfolding s' by (induction cs arbitrary: cs') (auto split: sum.splits)
  moreover from rebind_constraints_bound[OF v r]
  have "\<forall>c \<in> set (parameter_constraints s'). \<forall>p \<in> set (constraint_parameters c).
           map_of (parameters s') (name p) = Some p"
    by (simp add: s' bound_to_def)
  ultimately show ?thesis by (intro conjI)
qed

theorem set_parameter_constraints_rebinds_witness:
  "set_parameter_constraints example_space [example_order_copy]
     = (None, example_space\<lparr>parameter_constraints :=
          [OrderConstraint (example_leaf 1 ''x'') (example_leaf 2 ''y'') (\<lambda>d. Inr True)]\<rparr>) \<and>
   constraint_parameters (OrderConstraint (example_leaf 1 ''x'') (example_leaf 2 ''y'') (\<lambda>d. Inr True))
     = [example_leaf 1 ''x'', example_leaf 2 ''y''] \<and>
   map_of (parameters example_space) (name (example_leaf 1 ''x'')) = Some (example_leaf 1 ''x'') \<and>
   map_of (parameters example_space) (name (example_leaf 2 ''y'')) = Some (example_leaf 2 ''y'')"
proof -
  let ?c = "OrderConstraint (example_leaf 1 ''x'') (example_leaf 2 ''y'') (\<lambda>d::(string \<times> int) list. Inr True)"
  let ?s' = "example_space\<lparr>parameter_constraints := [?c]\<rparr>"
  have e: "set_parameter_constraints example_space [example_order_copy] = (None, ?s')"
    by (simp add: set_parameter_constraints_def example_space_def example_order_copy_def
        example_leaf_def param_eq_def dict_get_def)
  have ps: "parameters ?s' = parameters example_space" by simp
  from set_parameter_constraints_rebinds[OF e, THEN conjunct2, THEN conjunct2]
  have "\<forall>p \<in> set (constraint_parameters ?c). map_of (parameters ?s') (name p) = Some p"
    by simp
  then have "map_of (parameters example_space) (name (example_leaf 1 ''x'')) = Some (example_leaf 1 ''x'')"
    and "map_of (parameters example_space) (name (example_leaf 2 ''y'')) = Some (example_leaf 2 ''y'')"
    unfolding ps by simp_all
  with e show ?thesis by simp
qed

lemma validate_constraint_parameters_iff:
  "validate_constraint_parameters ps qs = Inr () \<longleftrightarrow>
     (\<forall>p \<in> set qs. \<exists>q. map_of ps (name p) = Some q \<and> param_eq p q)"
  by (induction qs) (auto split: option.splits)

lemma validate_constraint_names_iff:
  "validate_constraint_names ps ns = Inr () \<longleftrightarrow> (\<forall>n \<in> set ns. map_of ps n \<noteq> None)"
  by (induction ns) (auto split: option.splits)

lemma validate_constraint_iff:
  "validate_constraint ps c = Inr () \<longleftrightarrow> constraint_valid ps c"
proof (cases c)
  case (OrderConstraint l u chk)
  then show ?thesis
    by (auto simp: constraint_valid_def split: option.splits)
next
  case (SumConstraint qs chk)
  then show ?thesis
    unfolding constraint_valid_def by (simp add: validate_constraint_parameters_iff) fastforce
next
  case (ParameterConstraint cd chk)
  then show ?thesis
    unfolding constraint_valid_def by (simp add: validate_constraint_names_iff)
qed

lemma validate_parameter_constraints_iff:
  "validate_parameter_constraints ps cs = Inr () \<longleftrightarrow> (\<forall>c \<in> set cs. constraint_valid ps c)"
proof (induction cs)
  case Nil
  then show ?case by simp
next
  case (Cons c cs)
  show ?case
  proof (cases "validate_constraint ps c")
    case (Inl e)
    then have "\<not> constraint_valid ps c" using validate_constraint_iff[of ps c] by simp
    with Inl show ?thesis by simp
  next
    case (Inr u)
    then have "constraint_valid ps c" using validate_constraint_iff[of ps c] by simp
    with Inr Cons.IH show ?thesis by simp
  qed
qed

text \<open>
  C6. If \<open>set_parameter_constraints\<close> raises, the search space is as it was before the
  call, its \<open>parameter_constraints\<close> included, and the exception is the one raised by
  the validation; the call raises exactly when some constraint is not valid (it names a
  parameter that is not in the space, or a parameter of a structural constraint differs
  from the space's own); and the list is reassigned only if every constraint is valid.
\<close>

theorem set_parameter_constraints_atomic:
  "(\<forall>e. fst (set_parameter_constraints self cs) = Some e \<longrightarrow>
        snd (set_parameter_constraints self cs) = self \<and>
        validate_parameter_constraints (parameters self) cs = Inl e) \<and>
   (fst (set_parameter_constraints self cs) \<noteq> None \<longleftrightarrow>
        (\<exists>c \<in> set cs. \<not> constraint_valid (parameters self) c)) \<and>
   (parameter_constraints (snd (set_parameter_constraints self cs)) \<noteq> parameter_constraints self
      \<longrightarrow> (\<forall>c \<in> set cs. constraint_valid (parameters self) c))"
proof -
  show ?thesis
  proof (cases "validate_parameter_constraints (parameters self) cs")
    case (Inl e)
    then have "\<exists>c \<in> set cs. \<not> constraint_valid (parameters self) c"
      using validate_parameter_constraints_iff[of "parameters self" cs] by auto
    with Inl show ?thesis by (simp add: set_parameter_constraints_def)
  next
    case (Inr u)
    then have v: "validate_parameter_constraints (parameters self) cs = Inr ()" by simp
    then have all: "\<forall>c \<in> set cs. constraint_valid (parameters self) c"
      using validate_parameter_constraints_iff[of "parameters self" cs] by simp
    from rebind_constraints_ok[OF v] obtain cs' where
      "rebind_constraints (parameters self) cs = Inr cs'" by blast
    with v all show ?thesis by (simp add: set_parameter_constraints_def)
  qed
qed


theorem set_parameter_constraints_atomic_witness:
  "fst (set_parameter_constraints example_space [example_order_copy, example_unknown_name])
     = Some (ValueError_not_in_space ''z'') \<and>
   snd (set_parameter_constraints example_space [example_order_copy, example_unknown_name])
     = example_space \<and>
   parameter_constraints (snd (set_parameter_constraints example_space [example_order_copy]))
     \<noteq> parameter_constraints example_space \<and>
   constraint_valid (parameters example_space) example_order_copy"
proof -
  have f: "fst (set_parameter_constraints example_space [example_order_copy, example_unknown_name])
     = Some (ValueError_not_in_space ''z'')"
    by (simp add: set_parameter_constraints_def example_space_def example_order_copy_def
        example_unknown_name_def example_leaf_def param_eq_def)
  have g: "parameter_constraints (snd (set_parameter_constraints example_space [example_order_copy]))
     \<noteq> parameter_constraints example_space"
    by (simp add: set_parameter_constraints_def example_space_def example_order_copy_def
        example_leaf_def param_eq_def dict_get_def)
  from f g
    set_parameter_constraints_atomic[of example_space "[example_order_copy, example_unknown_name]"]
    set_parameter_constraints_atomic[of example_space "[example_order_copy]"]
  show ?thesis by simp
qed

text \<open>
  C5. After a successful \<open>set_parameter_constraints\<close> every parameter of an installed
  structural constraint is the instance that the space stores under its name, as
  proved above for every input. \<open>add_parameter_constraints\<close> does not rebind:
  on a space with parameters \<open>x\<close> (object 1) and \<open>y\<close> (object 2), adding an order
  constraint over equal copies (objects 11 and 12) succeeds and installs the constraint
  still referring to the copies, where \<open>set_parameter_constraints\<close> on the same input
  installs it referring to objects 1 and 2.
\<close>

theorem add_parameter_constraints_keeps_copy:
  "add_parameter_constraints example_space [example_order_copy]
     = (None, example_space\<lparr>parameter_constraints := [example_order_copy]\<rparr>) \<and>
   constraint_parameters example_order_copy = [example_leaf 11 ''x'', example_leaf 12 ''y''] \<and>
   map_of (parameters example_space) ''x'' = Some (example_leaf 1 ''x'') \<and>
   example_leaf 11 ''x'' \<noteq> example_leaf 1 ''x'' \<and>
   set_parameter_constraints example_space [example_order_copy]
     = (None, example_space\<lparr>parameter_constraints :=
          [OrderConstraint (example_leaf 1 ''x'') (example_leaf 2 ''y'') (\<lambda>d. Inr True)]\<rparr>)"
  by (simp add: add_parameter_constraints_def set_parameter_constraints_def example_space_def
      example_order_copy_def example_leaf_def param_eq_def dict_get_def)

section \<open>Arm construction\<close>

lemma dict_update_keys: "fst ` set (dict_update d items) = fst ` set d \<union> fst ` set items"
  unfolding dict_update_def
proof (induction items arbitrary: d)
  case Nil
  then show ?case by simp
next
  case (Cons kv items)
  obtain k v where kv: "kv = (k, v)" by (cases kv)
  show ?case unfolding kv using Cons.IH[of "AList.update k v d"]
    by (auto simp: dom_update)
qed

lemma update_entries: "set (AList.update k v d) \<subseteq> insert (k, v) (set d)"
  by (induction d) auto

lemma dict_update_entries: "set (dict_update d items) \<subseteq> set d \<union> set items"
  unfolding dict_update_def
proof (induction items arbitrary: d)
  case Nil
  then show ?case by simp
next
  case (Cons kv items)
  obtain k v where kv: "kv = (k, v)" by (cases kv)
  show ?case unfolding kv using Cons.IH[of "AList.update k v d"] update_entries[of k v d]
    by auto
qed

lemma dict_update_distinct: "distinct (map fst d) \<Longrightarrow> distinct (map fst (dict_update d items))"
  unfolding dict_update_def
proof (induction items arbitrary: d)
  case Nil
  then show ?case by simp
next
  case (Cons kv items)
  obtain k v where kv: "kv = (k, v)" by (cases kv)
  show ?case unfolding kv using Cons.IH[of "AList.update k v d"] Cons.prems
    by (simp add: distinct_update)
qed

lemma dict_update_fresh:
  "distinct (map fst d @ map fst items) \<Longrightarrow> dict_update d items = d @ items"
  unfolding dict_update_def
proof (induction items arbitrary: d)
  case Nil
  then show ?case by simp
next
  case (Cons kv items)
  obtain k v where kv: "kv = (k, v)" by (cases kv)
  have fresh: "k \<notin> fst ` set d" using Cons.prems kv by auto
  have "distinct (map fst (d @ [(k, v)]) @ map fst items)" using Cons.prems kv by auto
  from Cons.IH[OF this] show ?case by (simp add: kv update_fresh[OF fresh])
qed

lemma validate_overrides_keys:
  "validate_overrides ps given = Inr () \<Longrightarrow> fst ` set given \<subseteq> fst ` set ps"
proof (induction given)
  case Nil
  then show ?case by simp
next
  case (Cons kv given)
  obtain k v where kv: "kv = (k, v)" by (cases kv)
  from Cons.prems kv obtain q where q: "map_of ps k = Some q"
    and rest: "validate_overrides ps given = Inr ()"
    by (auto split: option.splits if_splits)
  from map_of_SomeD[OF q] have "k \<in> fst ` set ps" by force
  with Cons.IH[OF rest] show ?case by (simp add: kv)
qed

text \<open>
  C7. Every successful call of \<open>construct_arm\<close> returns an arm whose parameterization
  has an entry for every parameter name of the space (its keys are exactly the names of
  the space, each once) and the given name. With no overrides the call succeeds, the
  keys are the names of the space and every value is \<open>None\<close>; when the keys of the
  dict of the space are distinct, as they are in a dict, the parameterization is the list
  of the names, in order, each with \<open>None\<close>. \<open>out_of_design_arm()\<close> is
  \<open>construct_arm()\<close>.
\<close>

theorem construct_arm_covers_space:
  "(\<forall>a. construct_arm self params nm = Inr a \<longrightarrow>
        fst ` set (arm_parameters a) = fst ` set (parameters self) \<and>
        distinct (map fst (arm_parameters a)) \<and> arm_name a = nm) \<and>
   (\<exists>a. construct_arm self None nm = Inr a \<and>
        fst ` set (arm_parameters a) = fst ` set (parameters self) \<and>
        snd ` set (arm_parameters a) \<subseteq> {None} \<and>
        (distinct (map fst (parameters self)) \<longrightarrow>
           arm_parameters a = map (\<lambda>k. (k, None)) (map fst (parameters self)))) \<and>
   out_of_design_arm self = construct_arm self None None"
proof (intro conjI allI impI)
  let ?final = "dict_update [] (map (\<lambda>k. (k, None :: 'a option)) (map fst (parameters self)))"
  have keys: "fst ` set ?final = fst ` set (parameters self)"
    by (simp add: dict_update_keys image_image)
  have dist: "distinct (map fst ?final)" by (rule dict_update_distinct) simp
  {
    fix a assume a: "construct_arm self params nm = Inr a"
    show "fst ` set (arm_parameters a) = fst ` set (parameters self)"
    proof (cases params)
      case None
      with a have "arm_parameters a = ?final" by (auto simp: construct_arm_def Let_def)
      with keys show ?thesis by simp
    next
      case (Some given)
      with a have v: "validate_overrides (parameters self) given = Inr ()"
        and ap: "arm_parameters a = dict_update ?final given"
        by (auto simp: construct_arm_def Let_def split: sum.splits)
      from validate_overrides_keys[OF v] keys show ?thesis
        unfolding ap dict_update_keys by blast
    qed
    show "distinct (map fst (arm_parameters a))"
      using a dist dict_update_distinct[OF dist]
      by (auto simp: construct_arm_def Let_def split: option.splits sum.splits)
    show "arm_name a = nm"
      using a by (auto simp: construct_arm_def Let_def split: option.splits sum.splits)
  }
  have vals: "snd ` set ?final \<subseteq> {None}"
    using dict_update_entries[of "[]" "map (\<lambda>k. (k, None :: 'a option)) (map fst (parameters self))"]
    by auto
  have exact: "distinct (map fst (parameters self)) \<longrightarrow>
      ?final = map (\<lambda>k. (k, None)) (map fst (parameters self))"
    using dict_update_fresh[of "[]" "map (\<lambda>k. (k, None :: 'a option)) (map fst (parameters self))"]
    by (simp add: comp_def)
  show "\<exists>a. construct_arm self None nm = Inr a \<and>
        fst ` set (arm_parameters a) = fst ` set (parameters self) \<and>
        snd ` set (arm_parameters a) \<subseteq> {None} \<and>
        (distinct (map fst (parameters self)) \<longrightarrow>
           arm_parameters a = map (\<lambda>k. (k, None)) (map fst (parameters self)))"
    using keys vals exact by (simp add: construct_arm_def Let_def)
  show "out_of_design_arm self = construct_arm self None None"
    by (simp add: out_of_design_arm_def)
qed


theorem construct_arm_covers_space_witness:
  "construct_arm example_space (Some [(''x'', Some 3)]) (Some ''a0'')
     = Inr \<lparr>arm_parameters = [(''x'', Some 3), (''y'', None)], arm_name = Some ''a0''\<rparr> \<and>
   fst ` set (arm_parameters \<lparr>arm_parameters = [(''x'', Some (3::nat)), (''y'', None)],
                              arm_name = Some ''a0''\<rparr>)
     = fst ` set (parameters example_space) \<and>
   distinct (map fst (parameters example_space)) \<and>
   (\<exists>b. out_of_design_arm example_space = Inr b \<and>
        arm_parameters b = map (\<lambda>k. (k, None)) (map fst (parameters example_space)))"
proof -
  let ?a = "\<lparr>arm_parameters = [(''x'', Some (3::nat)), (''y'', None)], arm_name = Some ''a0''\<rparr>"
  have e: "construct_arm example_space (Some [(''x'', Some 3)]) (Some ''a0'') = Inr ?a"
    by (simp add: construct_arm_def example_space_def example_leaf_def dict_update_def)
  have d: "distinct (map fst (parameters example_space))"
    by (simp add: example_space_def)
  note t1 = construct_arm_covers_space[of example_space "Some [(''x'', Some 3)]" "Some ''a0''"]
  from t1[THEN conjunct1, rule_format, OF e]
  have k: "fst ` set (arm_parameters ?a) = fst ` set (parameters example_space)" ..
  note t2 = construct_arm_covers_space[of example_space None None]
  from t2[THEN conjunct2, THEN conjunct1] obtain b where
    b: "construct_arm example_space None None = Inr b" and
    bp: "distinct (map fst (parameters example_space)) \<longrightarrow>
           arm_parameters b = map (\<lambda>k. (k, None)) (map fst (parameters example_space))"
    by blast
  from b have o: "out_of_design_arm example_space = Inr b"
    by (simp only: t2[THEN conjunct2, THEN conjunct2])
  from o bp d have "\<exists>b. out_of_design_arm example_space = Inr b \<and>
        arm_parameters b = map (\<lambda>k. (k, None)) (map fst (parameters example_space))"
    by blast
  with e k d show ?thesis by (intro conjI)
qed

section \<open>Membership\<close>

lemma check_values_False_iff:
  "check_values ps p False = Inr (\<forall>(n, v) \<in> set p. \<exists>q. map_of ps n = Some q \<and> validate q v)"
  by (induction p) (auto split: option.splits)

lemma numerical_items_iff:
  assumes "\<forall>(n, v) \<in> set p. map_of ps n \<noteq> None"
  shows "numerical_items pyfloat ps p = Inr items \<longleftrightarrow> coerced pyfloat (numeric_subset ps p) items"
  using assms
proof (induction p arbitrary: items)
  case Nil
  then show ?case by (auto simp: coerced_def numeric_subset_def)
next
  case (Cons nv p)
  obtain n v where nv: "nv = (n, v)" by (cases nv)
  from Cons.prems nv obtain q where q: "map_of ps n = Some q" by auto
  from Cons.prems have rest: "\<forall>(n, v) \<in> set p. map_of ps n \<noteq> None" by simp
  note IH = Cons.IH[OF rest, unfolded coerced_def numeric_subset_def]
  show ?case
  proof (cases "is_numeric q")
    case False
    with q IH show ?thesis by (simp add: nv dict_get_def coerced_def numeric_subset_def)
  next
    case True
    show ?thesis
    proof (cases "pyfloat v")
      case (Inl e)
      with q True show ?thesis
        by (auto simp: nv dict_get_def coerced_def numeric_subset_def list_all2_Cons1)
    next
      case (Inr x)
      have "numerical_items pyfloat ps (nv # p) = Inr items \<longleftrightarrow>
            (\<exists>d. numerical_items pyfloat ps p = Inr d \<and> items = (n, x) # d)"
        using q True Inr by (auto simp: nv dict_get_def split: sum.splits)
      also have "\<dots> \<longleftrightarrow> (\<exists>d. coerced pyfloat (numeric_subset ps p) d \<and> items = (n, x) # d)"
        using Cons.IH[OF rest] by simp
      also have "\<dots> \<longleftrightarrow> coerced pyfloat (numeric_subset ps (nv # p)) items"
        using q True Inr by (auto simp: nv coerced_def numeric_subset_def list_all2_Cons1)
      finally show ?thesis .
    qed
  qed
qed

lemma numerical_items_Inl_iff:
  assumes "\<forall>(n, v) \<in> set p. map_of ps n \<noteq> None"
  shows "numerical_items pyfloat ps p = Inl e \<longleftrightarrow>
    (\<exists>n v. find (\<lambda>(n, v). isl (pyfloat v)) (numeric_subset ps p) = Some (n, v) \<and> pyfloat v = Inl e)"
  using assms
proof (induction p)
  case Nil
  then show ?case by (simp add: numeric_subset_def)
next
  case (Cons nv p)
  obtain n v where nv: "nv = (n, v)" by (cases nv)
  from Cons.prems nv obtain q where q: "map_of ps n = Some q" by auto
  from Cons.prems have rest: "\<forall>(n, v) \<in> set p. map_of ps n \<noteq> None" by simp
  note IH = Cons.IH[OF rest, unfolded numeric_subset_def]
  show ?case
  proof (cases "is_numeric q")
    case False
    with q IH show ?thesis by (simp add: nv dict_get_def numeric_subset_def)
  next
    case True
    show ?thesis
    proof (cases "pyfloat v")
      case (Inl e')
      with q True show ?thesis by (auto simp: nv dict_get_def numeric_subset_def)
    next
      case (Inr x)
      have "numerical_items pyfloat ps (nv # p) = Inl e \<longleftrightarrow> numerical_items pyfloat ps p = Inl e"
        using q True Inr by (cases "numerical_items pyfloat ps p") (simp_all add: nv dict_get_def)
      also note Cons.IH[OF rest]
      also have "(\<exists>n v. find (\<lambda>(n, v). isl (pyfloat v)) (numeric_subset ps p) = Some (n, v) \<and>
            pyfloat v = Inl e) \<longleftrightarrow>
          (\<exists>n v. find (\<lambda>(n, v). isl (pyfloat v)) (numeric_subset ps (nv # p)) = Some (n, v) \<and>
            pyfloat v = Inl e)"
        using q True Inr by (simp add: nv numeric_subset_def)
      finally show ?thesis .
    qed
  qed
qed

lemma check_constraints_find:
  "check_constraints cs d False =
     (case find (\<lambda>c. check c d \<noteq> Inr True) cs of None \<Rightarrow> Inr True | Some c \<Rightarrow> check c d)"
proof (induction cs)
  case Nil
  then show ?case by simp
next
  case (Cons c cs)
  show ?case
  proof (cases "check c d")
    case (Inl e)
    then show ?thesis by simp
  next
    case (Inr ok)
    with Cons show ?thesis by (cases ok) simp_all
  qed
qed

text \<open>
  X2. What \<open>check_membership(p)\<close> does with \<open>raise_error=False\<close>, for every space,
  parameterization and \<open>float\<close>. It returns \<open>True\<close> exactly when \<open>p\<close> has as many
  entries as the space has parameters, every key of \<open>p\<close> is a parameter name whose
  parameter validates the value, every value of a numeric parameter is coerced and the
  check of every constraint returns \<open>True\<close> on the dict of the coerced values. It
  returns \<open>False\<close> exactly when the length or a key or a validation fails, or when all
  pass, the numeric values are coerced and the first constraint whose check does not
  return \<open>True\<close> returns \<open>False\<close>. It raises \<open>e\<close> exactly when length, keys and
  validations pass and either the first numeric value that \<open>float\<close> does not coerce
  makes \<open>float\<close> raise \<open>e\<close>, or the numeric values are coerced and the first constraint
  whose check does not return \<open>True\<close> raises \<open>e\<close>.
\<close>

theorem check_membership_outcome:
  "(check_membership pyfloat self p False = Inr True \<longleftrightarrow>
      length p = length (parameters self) \<and>
      (\<forall>(n, v) \<in> set p. \<exists>q. map_of (parameters self) n = Some q \<and> validate q v) \<and>
      (\<exists>items. coerced pyfloat (numeric_subset (parameters self) p) items \<and>
         (\<forall>c \<in> set (parameter_constraints self). check c (dict_update [] items) = Inr True))) \<and>
   (check_membership pyfloat self p False = Inr False \<longleftrightarrow>
      \<not> (length p = length (parameters self) \<and>
         (\<forall>(n, v) \<in> set p. \<exists>q. map_of (parameters self) n = Some q \<and> validate q v)) \<or>
      (\<exists>items c. coerced pyfloat (numeric_subset (parameters self) p) items \<and>
         find (\<lambda>c. check c (dict_update [] items) \<noteq> Inr True) (parameter_constraints self)
           = Some c \<and>
         check c (dict_update [] items) = Inr False)) \<and>
   (check_membership pyfloat self p False = Inl e \<longleftrightarrow>
      length p = length (parameters self) \<and>
      (\<forall>(n, v) \<in> set p. \<exists>q. map_of (parameters self) n = Some q \<and> validate q v) \<and>
      ((\<exists>n v. find (\<lambda>(n, v). isl (pyfloat v)) (numeric_subset (parameters self) p) = Some (n, v) \<and>
          pyfloat v = Inl e) \<or>
       (\<exists>items c. coerced pyfloat (numeric_subset (parameters self) p) items \<and>
          find (\<lambda>c. check c (dict_update [] items) \<noteq> Inr True) (parameter_constraints self)
            = Some c \<and>
          check c (dict_update [] items) = Inl e)))"
proof (cases "length p = length (parameters self) \<and>
    (\<forall>(n, v) \<in> set p. \<exists>q. map_of (parameters self) n = Some q \<and> validate q v)")
  case False
  have r: "check_membership pyfloat self p False = Inr False"
  proof (cases "length p = length (parameters self)")
    case True
    with False have "check_values (parameters self) p False = Inr False"
      by (simp only: check_values_False_iff) simp
    with True show ?thesis by (simp add: check_membership_def)
  next
    case False
    then show ?thesis by (simp add: check_membership_def)
  qed
  from False show ?thesis unfolding r by blast
next
  case True
  then have len: "length p = length (parameters self)"
    and vals: "\<forall>(n, v) \<in> set p. \<exists>q. map_of (parameters self) n = Some q \<and> validate q v"
    by auto
  from vals have known: "\<forall>(n, v) \<in> set p. map_of (parameters self) n \<noteq> None" by fastforce
  have cv: "check_values (parameters self) p False = Inr True"
    using vals by (simp add: check_values_False_iff)
  note ni = numerical_items_iff[OF known, of pyfloat]
  note nl = numerical_items_Inl_iff[OF known, of pyfloat]
  show ?thesis
  proof (cases "numerical_items pyfloat (parameters self) p")
    case (Inl e')
    then have none: "\<And>items. \<not> coerced pyfloat (numeric_subset (parameters self) p) items"
      using ni by simp
    have r: "check_membership pyfloat self p False = Inl e'"
      using Inl len cv by (simp add: check_membership_def)
    have "(\<exists>n v. find (\<lambda>(n, v). isl (pyfloat v)) (numeric_subset (parameters self) p) = Some (n, v) \<and>
          pyfloat v = Inl e) \<longleftrightarrow> e' = e"
      using nl[of e] Inl by auto
    with none len vals show ?thesis unfolding r by simp
  next
    case (Inr items)
    then have c: "coerced pyfloat (numeric_subset (parameters self) p) items" using ni by simp
    have uniq: "coerced pyfloat (numeric_subset (parameters self) p) items' \<longleftrightarrow> items' = items"
      for items'
      using ni[of items'] Inr by auto
    have nofail: "\<not> (\<exists>n v. find (\<lambda>(n, v). isl (pyfloat v)) (numeric_subset (parameters self) p)
          = Some (n, v) \<and> pyfloat v = Inl e')" for e'
      using nl[of e'] Inr by simp
    let ?d = "dict_update [] items"
    let ?f = "find (\<lambda>c. check c ?d \<noteq> Inr True) (parameter_constraints self)"
    have r: "check_membership pyfloat self p False = (case ?f of None \<Rightarrow> Inr True | Some c \<Rightarrow> check c ?d)"
      using Inr len cv by (simp add: check_membership_def check_constraints_find)
    show ?thesis
    proof (cases ?f)
      case None
      then have all: "\<forall>c \<in> set (parameter_constraints self). check c ?d = Inr True"
        by (simp add: find_None_iff)
      from None have r': "check_membership pyfloat self p False = Inr True" using r by simp
      from all None len vals c nofail show ?thesis unfolding r' uniq by simp
    next
      case (Some c0)
      then have c0: "c0 \<in> set (parameter_constraints self)" "check c0 ?d \<noteq> Inr True"
        by (auto simp: find_Some_iff)
      from Some have r': "check_membership pyfloat self p False = check c0 ?d" using r by simp
      from c0 have nall: "\<not> (\<forall>c \<in> set (parameter_constraints self). check c ?d = Inr True)"
        by blast
      from c0 Some len vals nall nofail show ?thesis unfolding r' uniq by auto
    qed
  qed
qed

theorem check_membership_outcome_witness:
  "check_membership example_float example_ordered_space [(''x'', Some 1), (''y'', Some 2)] False
     = Inr True \<and>
   check_membership example_float example_ordered_space [(''x'', Some 2), (''y'', Some 1)] False
     = Inr False \<and>
   check_membership example_float example_ordered_space [(''x'', Some 1)] False = Inr False \<and>
   check_membership example_float (example_choice_space [Some 1, Some (2 ^ 1024)])
     [(''c'', Some (2 ^ 1024))] False = Inl OverflowError \<and>
   check_membership example_float example_mixed_space [(''x'', Some 1), (''s'', Some 0)] False
     = Inl (ValueError_not_present ''s'')"
proof -
  let ?p = "[(''x'', Some (1::nat)), (''y'', Some 2)]"
  let ?q = "[(''x'', Some (2::nat)), (''y'', Some 1)]"
  let ?s = "[(''x'', Some (1::nat))]"
  let ?big = "example_choice_space [Some 1, Some (2 ^ 1024)]"
  let ?c = "[(''c'', Some ((2::nat) ^ 1024))]"
  let ?m = "[(''x'', Some (1::nat)), (''s'', Some 0)]"
  have ps: "parameters example_ordered_space
      = [(''x'', example_leaf 1 ''x''), (''y'', example_leaf 2 ''y'')]"
    and pcs: "parameter_constraints example_ordered_space = [example_order]"
    by (simp_all add: example_ordered_space_def example_space_def)
  have chk: "check example_order d = example_linear_check [(''x'', 1), (''y'', - 1)] 0 d" for d
    by (simp add: example_order_def)
  have a: "length ?p = length (parameters example_ordered_space)" by (simp add: ps)
  have bc: "\<forall>(n, v) \<in> set ?p. \<exists>q. map_of (parameters example_ordered_space) n = Some q \<and> validate q v"
    by (simp add: ps example_leaf_def)
  have co: "coerced example_float (numeric_subset (parameters example_ordered_space) ?p)
      [(''x'', 1), (''y'', 2)]"
    by (simp add: ps coerced_def numeric_subset_def example_leaf_def example_float_def
        example_nearest_double_def)
  have ch: "\<forall>c \<in> set (parameter_constraints example_ordered_space).
      check c (dict_update [] [(''x'', 1), (''y'', 2)]) = Inr True"
    by (simp add: pcs chk example_linear_check_def dict_update_def)
  from a bc co ch check_membership_outcome[of example_float example_ordered_space ?p, THEN conjunct1]
  have r1: "check_membership example_float example_ordered_space ?p False = Inr True"
    by blast
  have co2: "coerced example_float (numeric_subset (parameters example_ordered_space) ?q)
      [(''x'', 2), (''y'', 1)]"
    by (simp add: ps coerced_def numeric_subset_def example_leaf_def example_float_def
        example_nearest_double_def)
  have f2: "find (\<lambda>c. check c (dict_update [] [(''x'', 2), (''y'', 1)]) \<noteq> Inr True)
      (parameter_constraints example_ordered_space) = Some example_order"
    by (simp add: pcs chk example_linear_check_def dict_update_def)
  have c2: "check example_order (dict_update [] [(''x'', 2), (''y'', 1)]) = Inr False"
    by (simp add: chk example_linear_check_def dict_update_def)
  from co2 f2 c2
    check_membership_outcome[of example_float example_ordered_space ?q, THEN conjunct2, THEN conjunct1]
  have r2: "check_membership example_float example_ordered_space ?q False = Inr False"
    by blast
  have a3: "length ?s \<noteq> length (parameters example_ordered_space)" by (simp add: ps)
  from a3
    check_membership_outcome[of example_float example_ordered_space ?s, THEN conjunct2, THEN conjunct1]
  have r3: "check_membership example_float example_ordered_space ?s False = Inr False"
    by blast
  have a4: "length ?c = length (parameters ?big)" by (simp add: example_choice_space_def)
  have bc4: "\<forall>(n, v) \<in> set ?c. \<exists>q. map_of (parameters ?big) n = Some q \<and> validate q v"
    by (simp add: example_choice_space_def example_numeric_choice_def)
  have f4: "find (\<lambda>(n, v). isl (example_float v)) (numeric_subset (parameters ?big) ?c)
      = Some (''c'', Some (2 ^ 1024))"
    by (simp add: example_choice_space_def numeric_subset_def example_numeric_choice_def example_float_def)
  have e4: "example_float (Some (2 ^ 1024)) = Inl OverflowError"
    by (simp add: example_float_def)
  from a4 bc4 f4 e4
    check_membership_outcome[of example_float ?big ?c OverflowError, THEN conjunct2, THEN conjunct2]
  have r4: "check_membership example_float ?big ?c False = Inl OverflowError"
    by blast
  have psm: "parameters example_mixed_space
      = [(''x'', example_leaf 1 ''x''), (''s'', example_nominal)]"
    and pcm: "parameter_constraints example_mixed_space = [example_nominal_constraint]"
    by (simp_all add: example_mixed_space_def)
  have chm: "check example_nominal_constraint d = example_linear_check [(''s'', 1)] 1 d" for d
    by (simp add: example_nominal_constraint_def)
  have a5: "length ?m = length (parameters example_mixed_space)" by (simp add: psm)
  have bc5: "\<forall>(n, v) \<in> set ?m. \<exists>q. map_of (parameters example_mixed_space) n = Some q \<and> validate q v"
    by (simp add: psm example_leaf_def example_nominal_def)
  have co5: "coerced example_float (numeric_subset (parameters example_mixed_space) ?m)
      [(''x'', 1)]"
    by (simp add: psm coerced_def numeric_subset_def example_leaf_def example_nominal_def
        example_float_def example_nearest_double_def)
  have f5: "find (\<lambda>c. check c (dict_update [] [(''x'', 1)]) \<noteq> Inr True)
      (parameter_constraints example_mixed_space) = Some example_nominal_constraint"
    by (simp add: pcm chm example_linear_check_def dict_update_def)
  have c5: "check example_nominal_constraint (dict_update [] [(''x'', 1)])
      = Inl (ValueError_not_present ''s'')"
    by (simp add: chm example_linear_check_def dict_update_def)
  from a5 bc5 co5 f5 c5
    check_membership_outcome[of example_float example_mixed_space ?m "ValueError_not_present ''s''",
      THEN conjunct2, THEN conjunct2]
  have r5: "check_membership example_float example_mixed_space ?m False
      = Inl (ValueError_not_present ''s'')"
    by blast
  from r1 r2 r3 r4 r5 show ?thesis by (intro conjI)
qed

lemma example_bit_length_bounds:
  "2 ^ k \<le> n \<Longrightarrow> n < 2 ^ Suc k \<Longrightarrow> example_bit_length n = Suc k"
proof (induction k arbitrary: n)
  case 0
  then have "n = 1" by simp
  then show ?case by (simp add: example_bit_length.simps)
next
  case (Suc k)
  then have "2 ^ k \<le> n div 2" "n div 2 < 2 ^ Suc k" by auto
  from Suc.IH[OF this] Suc.prems show ?case
    by (subst example_bit_length.simps) auto
qed

text \<open>
  \<open>example_float\<close> at the edges of its three cases: the last integer below which all
  are doubles, two ties (to the even significand below and above), the last integer that
  is coerced (to the largest double) and the first that overflows.
\<close>

lemma example_float_values:
  "example_float (Some (2 ^ 53)) = Inr (2 ^ 53)"
  "example_float (Some (2 ^ 53 + 1)) = Inr (2 ^ 53)"
  "example_float (Some (2 ^ 53 + 3)) = Inr (2 ^ 53 + 4)"
  "example_float (Some (2 ^ 1024 - 2 ^ 970 - 1)) = Inr (2 ^ 1024 - 2 ^ 971)"
  "example_float (Some (2 ^ 1024 - 2 ^ 970)) = Inl OverflowError"
proof -
  have b53: "example_bit_length (2 ^ 53) = 54" "example_bit_length (2 ^ 53 + 1) = 54"
    "example_bit_length (2 ^ 53 + 3) = 54"
    by (rule example_bit_length_bounds[of 53, simplified]; simp)+
  have b1024: "example_bit_length (2 ^ 1024 - 2 ^ 970 - 1) = 1024"
    by (rule example_bit_length_bounds[of 1023, simplified]; simp)
  show "example_float (Some (2 ^ 53)) = Inr (2 ^ 53)"
    by (simp add: example_float_def example_nearest_double_def b53[simplified] Let_def)
  show "example_float (Some (2 ^ 53 + 1)) = Inr (2 ^ 53)"
    by (simp add: example_float_def example_nearest_double_def b53[simplified] Let_def)
  show "example_float (Some (2 ^ 53 + 3)) = Inr (2 ^ 53 + 4)"
    by (simp add: example_float_def example_nearest_double_def b53[simplified] Let_def)
  show "example_float (Some (2 ^ 1024 - 2 ^ 970 - 1)) = Inr (2 ^ 1024 - 2 ^ 971)"
    by (simp add: example_float_def example_nearest_double_def b1024[simplified] Let_def)
  show "example_float (Some (2 ^ 1024 - 2 ^ 970)) = Inl OverflowError"
    by (simp add: example_float_def)
qed

text \<open>
  C4. With \<open>raise_error=False\<close>, \<open>check_membership(p)\<close> is to return \<open>True\<close> if and
  only if (a) \<open>p\<close> has as many entries as the space has parameters, (b) every key of
  \<open>p\<close> is a parameter name of the space, (c) every value passes the validation of its
  parameter and (d) the numeric entries, coerced to floating point, satisfy the check of
  every constraint, and to return \<open>False\<close> otherwise. The code returns neither on the
  following parameterizations, each of which passes (a), (b) and (c). The space of the
  numeric choice parameter \<open>c\<close> with the values 1 and \<open>2 ^ 1024\<close> is constructed, and
  on \<open>{c: 2 ^ 1024}\<close> the call raises the \<open>OverflowError\<close> of \<open>float\<close>; with the
  values 1 and \<open>None\<close>, on \<open>{c: None}\<close> it raises the \<open>TypeError\<close> of \<open>float\<close>.
  The space of the numeric \<open>x\<close> and the non-numeric \<open>s\<close> with a linear constraint on
  \<open>s\<close> is constructed, and on \<open>{x: 1, s: 0}\<close> the call raises the \<open>ValueError\<close> of
  the constraint's check, which is given the dict of \<open>x\<close> alone.
\<close>

theorem check_membership_raises:
  "SearchSpace_init [example_numeric_choice [Some 1, Some (2 ^ 1024)]] None
     = Inr (example_choice_space [Some 1, Some (2 ^ 1024)]) \<and>
   check_values (parameters (example_choice_space [Some 1, Some (2 ^ 1024)]))
     [(''c'', Some (2 ^ 1024))] False = Inr True \<and>
   check_membership example_float (example_choice_space [Some 1, Some (2 ^ 1024)])
     [(''c'', Some (2 ^ 1024))] False = Inl OverflowError \<and>
   SearchSpace_init [example_numeric_choice [Some 1, None]] None
     = Inr (example_choice_space [Some 1, None]) \<and>
   check_values (parameters (example_choice_space [Some 1, None])) [(''c'', None)] False
     = Inr True \<and>
   check_membership example_float (example_choice_space [Some 1, None]) [(''c'', None)] False
     = Inl TypeError \<and>
   SearchSpace_init [example_leaf 1 ''x'', example_nominal] (Some [example_nominal_constraint])
     = Inr example_mixed_space \<and>
   check_values (parameters example_mixed_space) [(''x'', Some 1), (''s'', Some 0)] False
     = Inr True \<and>
   numerical_items example_float (parameters example_mixed_space)
     [(''x'', Some 1), (''s'', Some 0)] = Inr [(''x'', 1)] \<and>
   check_membership example_float example_mixed_space [(''x'', Some 1), (''s'', Some 0)] False
     = Inl (ValueError_not_present ''s'')"
proof -
  have i1: "SearchSpace_init [example_numeric_choice vals] None = Inr (example_choice_space vals)"
    for vals
    by (simp add: SearchSpace_init_def SearchSpace_init_as_def set_parameter_constraints_def
        dict_of_parameters_def example_numeric_choice_def example_choice_space_def)
  have i2: "SearchSpace_init [example_leaf 1 ''x'', example_nominal]
      (Some [example_nominal_constraint]) = Inr example_mixed_space"
    by (simp add: SearchSpace_init_def SearchSpace_init_as_def set_parameter_constraints_def
        dict_of_parameters_def example_leaf_def example_nominal_def
        example_nominal_constraint_def example_mixed_space_def dict_get_def)
  have v1: "check_values (parameters (example_choice_space [Some 1, Some (2 ^ 1024)]))
      [(''c'', Some (2 ^ 1024))] False = Inr True"
    by (simp add: example_choice_space_def example_numeric_choice_def)
  have m1: "check_membership example_float (example_choice_space [Some 1, Some (2 ^ 1024)])
      [(''c'', Some (2 ^ 1024))] False = Inl OverflowError"
    by (simp add: check_membership_def example_choice_space_def example_numeric_choice_def
        example_float_def dict_get_def)
  have v2: "check_values (parameters (example_choice_space [Some 1, None])) [(''c'', None)] False
      = Inr True"
    by (simp add: example_choice_space_def example_numeric_choice_def)
  have m2: "check_membership example_float (example_choice_space [Some 1, None])
      [(''c'', None)] False = Inl TypeError"
    by (simp add: check_membership_def example_choice_space_def example_numeric_choice_def
        example_float_def dict_get_def)
  have v3: "check_values (parameters example_mixed_space) [(''x'', Some 1), (''s'', Some 0)] False
      = Inr True"
    by (simp add: example_mixed_space_def example_leaf_def example_nominal_def)
  have n3: "numerical_items example_float (parameters example_mixed_space)
      [(''x'', Some 1), (''s'', Some 0)] = Inr [(''x'', 1)]"
    by (simp add: example_mixed_space_def example_leaf_def example_nominal_def dict_get_def
        example_float_def example_nearest_double_def)
  have m3: "check_membership example_float example_mixed_space
      [(''x'', Some 1), (''s'', Some 0)] False = Inl (ValueError_not_present ''s'')"
    unfolding check_membership_def v3 n3
    by (simp add: example_mixed_space_def example_nominal_constraint_def
        example_linear_check_def dict_update_def)
  from i1 v1 m1 i1 v2 m2 i2 v3 n3 m3 show ?thesis by (intro conjI)
qed

section \<open>Casting arms\<close>

lemma cast_loop_Cons:
  "cast_loop ps acc ((n, v) # rest) =
     (case cast_value ps n v of
        Inl e \<Rightarrow> Inl e
      | Inr v' \<Rightarrow> cast_loop ps (AList.update n v' acc) rest)"
  by (simp add: cast_value_def split: option.splits)

lemma cast_loop_entries:
  assumes "cast_loop ps acc items = Inr r" and "(n, w) \<in> set r"
  shows "(n, w) \<in> set acc \<or> (\<exists>v. (n, v) \<in> set items \<and> cast_value ps n v = Inr w)"
  using assms
proof (induction items arbitrary: acc)
  case Nil
  then show ?case by simp
next
  case (Cons kv items)
  obtain k v where kv: "kv = (k, v)" by (cases kv)
  from Cons.prems(1) obtain v' where c: "cast_value ps k v = Inr v'"
    and l: "cast_loop ps (AList.update k v' acc) items = Inr r"
    unfolding kv cast_loop_Cons by (auto split: sum.splits)
  from Cons.IH[OF l Cons.prems(2)]
  consider "(n, w) \<in> set (AList.update k v' acc)"
    | "\<exists>v. (n, v) \<in> set items \<and> cast_value ps n v = Inr w" by blast
  then show ?case
  proof cases
    case 1
    with update_entries[of k v' acc] have "(n, w) = (k, v') \<or> (n, w) \<in> set acc" by auto
    with c show ?thesis unfolding kv by auto
  next
    case 2
    then show ?thesis unfolding kv by auto
  qed
qed

lemma cast_loop_distinct:
  assumes "cast_loop ps acc items = Inr r" and "distinct (map fst acc)"
  shows "distinct (map fst r)"
  using assms
proof (induction items arbitrary: acc)
  case Nil
  then show ?case by simp
next
  case (Cons kv items)
  obtain k v where kv: "kv = (k, v)" by (cases kv)
  from Cons.prems(1) obtain v' where "cast_loop ps (AList.update k v' acc) items = Inr r"
    unfolding kv cast_loop_Cons by (auto split: sum.splits)
  moreover have "distinct (map fst (AList.update k v' acc))"
    using Cons.prems(2) by (simp add: distinct_update)
  ultimately show ?case by (rule Cons.IH)
qed

lemma cast_loop_fixed:
  assumes "\<forall>(n, w) \<in> set items. cast_value ps n w = Inr w"
    and "distinct (map fst acc @ map fst items)"
  shows "cast_loop ps acc items = Inr (acc @ items)"
  using assms
proof (induction items arbitrary: acc)
  case Nil
  then show ?case by simp
next
  case (Cons kv items)
  obtain k v where kv: "kv = (k, v)" by (cases kv)
  have fresh: "k \<notin> fst ` set acc" using Cons.prems(2) kv by auto
  have d: "distinct (map fst (acc @ [(k, v)]) @ map fst items)" using Cons.prems(2) kv by auto
  have rest: "\<forall>(n, w) \<in> set items. cast_value ps n w = Inr w"
    using Cons.prems(1) by simp
  have c: "cast_value ps k v = Inr v" using Cons.prems(1) kv by simp
  have "cast_loop ps acc (kv # items) = cast_loop ps (acc @ [(k, v)]) items"
    unfolding kv cast_loop_Cons by (simp add: c update_fresh[OF fresh])
  also have "\<dots> = Inr ((acc @ [(k, v)]) @ items)" by (rule Cons.IH[OF rest d])
  finally show ?case by (simp add: kv)
qed

lemma cast_loop_idempotent:
  assumes idem: "\<forall>(n, v) \<in> set items. \<forall>q v'.
      map_of ps n = Some q \<and> cast q v = Inr v' \<longrightarrow> cast q v' = Inr v'"
    and r: "cast_loop ps [] items = Inr r"
  shows "cast_loop ps [] r = Inr r"
proof -
  have "\<forall>(n, w) \<in> set r. cast_value ps n w = Inr w"
  proof (clarify)
    fix n w assume "(n, w) \<in> set r"
    from cast_loop_entries[OF r this] obtain v where i: "(n, v) \<in> set items"
      and v: "cast_value ps n v = Inr w" by auto
    show "cast_value ps n w = Inr w"
    proof (cases "map_of ps n")
      case None
      then show ?thesis by (simp add: cast_value_def)
    next
      case (Some q)
      with v have "cast q v = Inr w" by (simp add: cast_value_def)
      with idem i Some have "cast q w = Inr w" by blast
      with Some show ?thesis by (simp add: cast_value_def)
    qed
  qed
  moreover have "distinct (map fst [] @ map fst r)"
    using cast_loop_distinct[OF r] by simp
  ultimately have "cast_loop ps [] r = Inr ([] @ r)" by (rule cast_loop_fixed)
  then show ?thesis by simp
qed

text \<open>
  C9, as amended. \<open>cast_arm\<close> is idempotent on every arm whose values the casts of the
  parameters settle: when, for each value of the arm under a name of the space, the
  \<open>cast\<close> of the parameter returns what it has returned for that value unchanged, then
  casting the arm returned by \<open>cast_arm(arm)\<close> returns that arm again (and a first
  call that raises leaves nothing to cast). In the returned arm, the value for a name
  unknown to the space is the value of the given arm, and the value for a known name is
  the \<open>cast\<close> of its parameter on the given value; the name of the arm is kept.
\<close>

theorem cast_arm_idempotent:
  assumes "\<forall>(n, v) \<in> set (arm_parameters arm). \<forall>q v'.
             map_of (parameters self) n = Some q \<and> cast q v = Inr v' \<longrightarrow> cast q v' = Inr v'"
  shows "(case cast_arm self arm of Inl e \<Rightarrow> Inl e | Inr a \<Rightarrow> cast_arm self a)
           = cast_arm self arm \<and>
         (\<forall>a. SearchSpace_cast_arm self arm = Inr a \<longrightarrow>
              SearchSpace_cast_arm self a = Inr a \<and>
              arm_name a = arm_name arm \<and>
              (\<forall>(n, w) \<in> set (arm_parameters a).
                 \<exists>v. (n, v) \<in> set (arm_parameters arm) \<and>
                     (case map_of (parameters self) n of
                        None \<Rightarrow> w = v
                      | Some q \<Rightarrow> cast q v = Inr w)))"
proof -
  have base: "SearchSpace_cast_arm self a = Inr a \<and> arm_name a = arm_name arm \<and>
      (\<forall>(n, w) \<in> set (arm_parameters a).
         \<exists>v. (n, v) \<in> set (arm_parameters arm) \<and>
             (case map_of (parameters self) n of None \<Rightarrow> w = v | Some q \<Rightarrow> cast q v = Inr w))"
    if "SearchSpace_cast_arm self arm = Inr a" for a
  proof -
    from that obtain r where r: "cast_loop (parameters self) [] (arm_parameters arm) = Inr r"
      and a: "a = \<lparr>arm_parameters = r, arm_name = arm_name arm\<rparr>"
      by (auto simp: SearchSpace_cast_arm_def split: sum.splits)
    have "\<exists>v. (n, v) \<in> set (arm_parameters arm) \<and>
             (case map_of (parameters self) n of None \<Rightarrow> w = v | Some q \<Rightarrow> cast q v = Inr w)"
      if "(n, w) \<in> set r" for n w
      using cast_loop_entries[OF r that]
      by (auto simp: cast_value_def split: option.splits)
    with cast_loop_idempotent[OF assms r] show ?thesis
      by (auto simp: SearchSpace_cast_arm_def a)
  qed
  have "(case cast_arm self arm of Inl e \<Rightarrow> Inl e | Inr a \<Rightarrow> cast_arm self a) = cast_arm self arm"
  proof (cases "cls self")
    case SearchSpace_cls
    then show ?thesis using base by (auto simp: cast_arm_def split: sum.splits)
  next
    case HierarchicalSearchSpace_cls
    then show ?thesis by (simp add: cast_arm_def)
  qed
  with base show ?thesis by blast
qed

theorem cast_arm_idempotent_witness:
  "cast_arm example_truncating_space
     \<lparr>arm_parameters = [(''x'', Some 12), (''w'', Some 50)], arm_name = Some ''a''\<rparr>
     = Inr \<lparr>arm_parameters = [(''x'', Some 10), (''w'', Some 50)], arm_name = Some ''a''\<rparr> \<and>
   cast_arm example_truncating_space
     \<lparr>arm_parameters = [(''x'', Some 10), (''w'', Some 50)], arm_name = Some ''a''\<rparr>
     = Inr \<lparr>arm_parameters = [(''x'', Some 10), (''w'', Some 50)], arm_name = Some ''a''\<rparr> \<and>
   cast_arm example_rounding_space
     \<lparr>arm_parameters = [(''x'', Some (Finite 3)), (''w'', Some (NaN 0))], arm_name = None\<rparr>
     = Inr \<lparr>arm_parameters = [(''x'', Some (Finite 3)), (''w'', Some (NaN 0))],
            arm_name = None\<rparr>"
proof -
  let ?arm2 = "\<lparr>arm_parameters = [(''x'', Some (Finite 3)), (''w'', Some (NaN 0))],
      arm_name = None :: string option\<rparr>"
  have h2: "\<forall>(n, v) \<in> set (arm_parameters ?arm2). \<forall>q v'.
      map_of (parameters example_rounding_space) n = Some q \<and> cast q v = Inr v'
        \<longrightarrow> cast q v' = Inr v'"
    by (auto simp: example_rounding_space_def example_rounding_def)
  have e2: "SearchSpace_cast_arm example_rounding_space ?arm2 = Inr ?arm2"
    by (simp add: SearchSpace_cast_arm_def example_rounding_space_def example_rounding_def)
  from cast_arm_idempotent[OF h2, THEN conjunct2, rule_format, OF e2, THEN conjunct1]
  have r2: "cast_arm example_rounding_space ?arm2 = Inr ?arm2"
    by (simp add: cast_arm_def example_rounding_space_def)
  let ?arm = "\<lparr>arm_parameters = [(''x'', Some (12::nat)), (''w'', Some 50)], arm_name = Some ''a''\<rparr>"
  let ?res = "\<lparr>arm_parameters = [(''x'', Some (10::nat)), (''w'', Some 50)], arm_name = Some ''a''\<rparr>"
  have h: "\<forall>(n, v) \<in> set (arm_parameters ?arm). \<forall>q v'.
      map_of (parameters example_truncating_space) n = Some q \<and> cast q v = Inr v'
        \<longrightarrow> cast q v' = Inr v'"
    by (auto simp: example_truncating_space_def example_truncating_def)
  have e: "cast_arm example_truncating_space ?arm = Inr ?res"
    by (simp add: cast_arm_def SearchSpace_cast_arm_def example_truncating_space_def
        example_truncating_def)
  from cast_arm_idempotent[OF h, THEN conjunct1]
  have "cast_arm example_truncating_space ?res = Inr ?res"
    unfolding e by simp
  with e r2 show ?thesis by (intro conjI)
qed

text \<open>
  C9, as stated, fails on a value whose cast is not settled: the rounding parameter
  \<open>x\<close> casts a not-a-number to a new not-a-number object each time, so the arm
  returned by the second \<open>cast_arm\<close> differs from the arm returned by the first.
\<close>

theorem cast_arm_not_idempotent_counterexample:
  "cast_arm example_rounding_space \<lparr>arm_parameters = [(''x'', Some (NaN 0))], arm_name = None\<rparr>
     = Inr \<lparr>arm_parameters = [(''x'', Some (NaN 1))], arm_name = None\<rparr> \<and>
   cast_arm example_rounding_space \<lparr>arm_parameters = [(''x'', Some (NaN 1))], arm_name = None\<rparr>
     = Inr \<lparr>arm_parameters = [(''x'', Some (NaN 2))], arm_name = None\<rparr> \<and>
   (case cast_arm example_rounding_space
           \<lparr>arm_parameters = [(''x'', Some (NaN 0))], arm_name = None\<rparr> of
      Inl e \<Rightarrow> Inl e
    | Inr a \<Rightarrow> cast_arm example_rounding_space a)
     \<noteq> cast_arm example_rounding_space
         \<lparr>arm_parameters = [(''x'', Some (NaN 0))], arm_name = None\<rparr>"
  by (simp add: cast_arm_def SearchSpace_cast_arm_def example_rounding_space_def
      example_rounding_def numeral_2_eq_2)

section \<open>Root discovery and tree validation\<close>

lemma check_subtree_Suc:
  "check_subtree (Suc limit) self rt =
     (if \<not> is_hierarchical rt then Inr {name rt}
      else case concat (map snd (dependents rt)) of
             [] \<Rightarrow> Inl StopIteration
           | first # rest \<Rightarrow>
               (case visited_in_subtree limit self first of
                  Inl e \<Rightarrow> Inl e
                | Inr initial \<Rightarrow>
                    (case reduce_disjoint_union (visited_in_subtree limit self) initial rest of
                       Inl e \<Rightarrow> Inl e
                     | Inr subtrees \<Rightarrow> Inr ({name rt} \<union> subtrees))))"
proof -
  have "(\<lambda>param_name. case getitem self param_name of
                          Inl e \<Rightarrow> Inl (generator_exit e)
                        | Inr p \<Rightarrow>
                            (case check_subtree limit self p of
                               Inl e \<Rightarrow> Inl (generator_exit e)
                             | Inr visited \<Rightarrow> Inr visited))
        = visited_in_subtree limit self"
    by (rule ext) (simp add: visited_in_subtree_def)
  then show ?thesis by (simp add: Let_def)
qed

lemma pairwise_disjoint_Cons:
  "pairwise_disjoint (v # vs) \<longleftrightarrow> (\<forall>j < length vs. v \<inter> vs ! j = {}) \<and> pairwise_disjoint vs"
  unfolding pairwise_disjoint_def
proof (intro iffI conjI allI impI)
  assume a: "\<forall>j<length (v # vs). \<forall>i<j. (v # vs) ! i \<inter> (v # vs) ! j = {}"
  { fix j assume "j < length vs"
    with a[rule_format, of "Suc j" 0] show "v \<inter> vs ! j = {}" by simp }
  { fix j i assume "j < length vs" "i < j"
    with a[rule_format, of "Suc j" "Suc i"] show "vs ! i \<inter> vs ! j = {}" by simp }
next
  fix j i
  assume a: "(\<forall>j<length vs. v \<inter> vs ! j = {}) \<and> (\<forall>j<length vs. \<forall>i<j. vs ! i \<inter> vs ! j = {})"
    and j: "j < length (v # vs)" and i: "i < j"
  from i obtain j' where j': "j = Suc j'" by (cases j) auto
  show "(v # vs) ! i \<inter> (v # vs) ! j = {}"
  proof (cases i)
    case 0
    with a j j' show ?thesis by simp
  next
    case (Suc i')
    with a j i j' show ?thesis by simp
  qed
qed

lemma shared_names_Cons:
  "shared_names (v # vs) = {x. x \<in> v \<and> (\<exists>j < length vs. x \<in> vs ! j)} \<union> shared_names vs"
proof (intro set_eqI iffI)
  fix x assume "x \<in> shared_names (v # vs)"
  then obtain j i where j: "j < length (v # vs)" and i: "i < j"
    and xi: "x \<in> (v # vs) ! i" and xj: "x \<in> (v # vs) ! j"
    unfolding shared_names_def by blast
  from i obtain j' where j': "j = Suc j'" by (cases j) auto
  show "x \<in> {x. x \<in> v \<and> (\<exists>j < length vs. x \<in> vs ! j)} \<union> shared_names vs"
  proof (cases i)
    case 0
    with j j' xi xj show ?thesis by auto
  next
    case (Suc i')
    with j i j' xi xj have "j' < length vs" "i' < j'" "x \<in> vs ! i'" "x \<in> vs ! j'" by auto
    then show ?thesis unfolding shared_names_def by blast
  qed
next
  fix x assume "x \<in> {x. x \<in> v \<and> (\<exists>j < length vs. x \<in> vs ! j)} \<union> shared_names vs"
  then consider j where "x \<in> v" "j < length vs" "x \<in> vs ! j"
    | j i where "j < length vs" "i < j" "x \<in> vs ! i" "x \<in> vs ! j"
    unfolding shared_names_def by blast
  then show "x \<in> shared_names (v # vs)"
  proof cases
    case 1
    then have "Suc j < length (v # vs)" "0 < Suc j" "x \<in> (v # vs) ! 0" "x \<in> (v # vs) ! Suc j"
      by auto
    then show ?thesis unfolding shared_names_def by blast
  next
    case 2
    then have "Suc j < length (v # vs)" "Suc i < Suc j" "x \<in> (v # vs) ! Suc i"
      "x \<in> (v # vs) ! Suc j" by auto
    then show ?thesis unfolding shared_names_def by blast
  qed
qed

lemma pairwise_disjoint_Cons_set:
  "pairwise_disjoint (v # vs) \<longleftrightarrow> (\<forall>w \<in> set vs. v \<inter> w = {}) \<and> pairwise_disjoint vs"
  unfolding pairwise_disjoint_Cons by (simp add: all_set_conv_all_nth)

lemma shared_names_Cons_set:
  "shared_names (v # vs) = (v \<inter> \<Union>(set vs)) \<union> shared_names vs"
proof -
  have "{x. x \<in> v \<and> (\<exists>j < length vs. x \<in> vs ! j)} = v \<inter> \<Union>(set vs)"
    by (auto simp: in_set_conv_nth) (metis nth_mem)
  then show ?thesis unfolding shared_names_Cons by simp
qed

lemma reduce_disjoint_union_result:
  assumes "list_all2 (\<lambda>n v. sub n = Inr v) ns vs"
  shows "if pairwise_disjoint (acc # vs)
         then reduce_disjoint_union sub acc ns = Inr (acc \<union> \<Union>(set vs))
         else \<exists>shared. reduce_disjoint_union sub acc ns = Inl (UserInputError_shared shared) \<and>
                shared \<noteq> {} \<and> shared \<subseteq> shared_names (acc # vs)"
  using assms
proof (induction arbitrary: acc rule: list_all2_induct)
  case Nil
  then show ?case by (simp add: pairwise_disjoint_def)
next
  case (Cons n ns v vs)
  show ?case
  proof (cases "acc \<inter> v = {}")
    case False
    have "\<not> pairwise_disjoint (acc # v # vs)"
      unfolding pairwise_disjoint_Cons_set[of acc] using False by simp
    moreover have "acc \<inter> v \<subseteq> shared_names (acc # v # vs)"
      unfolding shared_names_Cons_set[of acc] by auto
    ultimately show ?thesis using False Cons.hyps(1) by (simp add: disjoint_union_def)
  next
    case True
    have step: "reduce_disjoint_union sub acc (n # ns) = reduce_disjoint_union sub (acc \<union> v) ns"
      using True Cons.hyps(1) by (simp add: disjoint_union_def)
    have pd: "pairwise_disjoint (acc # v # vs) \<longleftrightarrow> pairwise_disjoint ((acc \<union> v) # vs)"
      unfolding pairwise_disjoint_Cons_set[of acc] pairwise_disjoint_Cons_set[of v]
        pairwise_disjoint_Cons_set[of "acc \<union> v"]
      using True by auto
    have sn: "shared_names ((acc \<union> v) # vs) \<subseteq> shared_names (acc # v # vs)"
      unfolding shared_names_Cons_set[of acc] shared_names_Cons_set[of v]
        shared_names_Cons_set[of "acc \<union> v"]
      by auto
    have un: "acc \<union> v \<union> \<Union>(set vs) = acc \<union> \<Union>(set (v # vs))" by auto
    show ?thesis
    proof (cases "pairwise_disjoint ((acc \<union> v) # vs)")
      case True
      with Cons.IH[of "acc \<union> v"] pd show ?thesis unfolding step un[symmetric] by simp
    next
      case False
      with Cons.IH[of "acc \<union> v"] obtain shared where
        "reduce_disjoint_union sub (acc \<union> v) ns = Inl (UserInputError_shared shared)"
        "shared \<noteq> {}" "shared \<subseteq> shared_names ((acc \<union> v) # vs)" by auto
      with sn False pd show ?thesis unfolding step by auto
    qed
  qed
qed


lemma reduce_disjoint_union_append:
  "reduce_disjoint_union sub acc (xs @ ys) =
     (case reduce_disjoint_union sub acc xs of
        Inl e \<Rightarrow> Inl e
      | Inr acc' \<Rightarrow> reduce_disjoint_union sub acc' ys)"
  by (induction xs arbitrary: acc) (auto split: sum.splits)

lemma check_subtree_children:
  assumes "is_hierarchical rt"
    and "list_all2 (\<lambda>n v. visited_in_subtree limit self n = Inr v)
           (concat (map snd (dependents rt))) vs"
    and "vs \<noteq> []"
  shows "if pairwise_disjoint vs
         then check_subtree (Suc limit) self rt = Inr ({name rt} \<union> \<Union>(set vs))
         else \<exists>shared. check_subtree (Suc limit) self rt = Inl (UserInputError_shared shared) \<and>
                shared \<noteq> {} \<and> shared \<subseteq> shared_names vs"
proof -
  from assms(3) obtain v0 vs' where vs: "vs = v0 # vs'" by (cases vs) auto
  with assms(2) obtain first rest where ns: "concat (map snd (dependents rt)) = first # rest"
    and f: "visited_in_subtree limit self first = Inr v0"
    and r: "list_all2 (\<lambda>n v. visited_in_subtree limit self n = Inr v) rest vs'"
    by (auto simp: list_all2_Cons2)
  have cs: "check_subtree (Suc limit) self rt =
      (case reduce_disjoint_union (visited_in_subtree limit self) v0 rest of
         Inl e \<Rightarrow> Inl e
       | Inr subtrees \<Rightarrow> Inr ({name rt} \<union> subtrees))"
    unfolding check_subtree_Suc using assms(1) ns f by simp
  show ?thesis
  proof (cases "pairwise_disjoint vs")
    case True
    with reduce_disjoint_union_result[OF r, of v0] vs
    have "reduce_disjoint_union (visited_in_subtree limit self) v0 rest = Inr (v0 \<union> \<Union>(set vs'))"
      by simp
    with True show ?thesis unfolding cs vs by simp
  next
    case False
    with reduce_disjoint_union_result[OF r, of v0] vs obtain shared where
      "reduce_disjoint_union (visited_in_subtree limit self) v0 rest
         = Inl (UserInputError_shared shared)"
      "shared \<noteq> {}" "shared \<subseteq> shared_names vs" by auto
    with False show ?thesis unfolding cs by simp
  qed
qed

lemma check_subtree_child_error:
  assumes "is_hierarchical rt"
    and "concat (map snd (dependents rt)) = ns1 @ n # ns2"
    and "list_all2 (\<lambda>n v. visited_in_subtree limit self n = Inr v) ns1 vs1"
    and "pairwise_disjoint vs1"
    and "visited_in_subtree limit self n = Inl e"
  shows "check_subtree (Suc limit) self rt = Inl e"
proof (cases ns1)
  case Nil
  with assms show ?thesis unfolding check_subtree_Suc by simp
next
  case (Cons first rest)
  with assms(3) obtain v0 vs' where vs: "vs1 = v0 # vs'"
    and f: "visited_in_subtree limit self first = Inr v0"
    and r: "list_all2 (\<lambda>n v. visited_in_subtree limit self n = Inr v) rest vs'"
    by (auto simp: list_all2_Cons1)
  from reduce_disjoint_union_result[OF r, of v0] assms(4) vs
  have "reduce_disjoint_union (visited_in_subtree limit self) v0 rest = Inr (v0 \<union> \<Union>(set vs'))"
    by simp
  then have "reduce_disjoint_union (visited_in_subtree limit self) v0 (rest @ n # ns2) = Inl e"
    unfolding reduce_disjoint_union_append using assms(5) by simp
  with assms(1,2) Cons f show ?thesis unfolding check_subtree_Suc by simp
qed

lemma visited_in_subtree_parameters:
  assumes "parameters s = parameters s'"
    and "\<And>rt. check_subtree limit s rt = check_subtree limit s' rt"
  shows "visited_in_subtree limit s = visited_in_subtree limit s'"
  by (rule ext) (simp add: visited_in_subtree_def getitem_def assms split: option.splits)

lemma check_subtree_parameters:
  "parameters s = parameters s' \<Longrightarrow> check_subtree limit s rt = check_subtree limit s' rt"
proof (induction limit arbitrary: rt)
  case 0
  then show ?case by simp
next
  case (Suc limit)
  have eq: "visited_in_subtree limit s = visited_in_subtree limit s'"
    by (rule visited_in_subtree_parameters[OF Suc.prems]) (rule Suc.IH[OF Suc.prems])
  show ?case unfolding check_subtree_Suc eq by (rule refl)
qed

lemma HierarchicalSearchSpace_init_steps:
  assumes "SearchSpace_init_as HierarchicalSearchSpace_cls ps pcs = Inr s0"
  shows "HierarchicalSearchSpace_init limit ps pcs =
     (case find_root (s0\<lparr>all_parameter_names := Some (name ` set ps)\<rparr>) of
        Inl e \<Rightarrow> Inl e
      | Inr r \<Rightarrow>
          (case check_subtree limit s0 r of
             Inl e \<Rightarrow> Inl e
           | Inr visited \<Rightarrow>
               if name ` set ps \<subseteq> visited
               then Inr (s0\<lparr>all_parameter_names := Some (name ` set ps), root := Some r\<rparr>)
               else Inl (UserInputError_unreachable (name ` set ps - visited))))"
proof -
  let ?s1 = "s0\<lparr>all_parameter_names := Some (name ` set ps)\<rparr>"
  from SearchSpace_init_parameters[OF assms]
  have keys: "set (map fst (parameters s0)) = name ` set ps" by (simp add: comp_def)
  have init: "HierarchicalSearchSpace_init limit ps pcs =
      (case find_root ?s1 of
         Inl e \<Rightarrow> Inl e
       | Inr rt \<Rightarrow>
           (case validate_hierarchical_structure limit (?s1\<lparr>root := Some rt\<rparr>) of
              Inl e \<Rightarrow> Inl e
            | Inr u \<Rightarrow> Inr (?s1\<lparr>root := Some rt\<rparr>)))"
    unfolding HierarchicalSearchSpace_init_def assms keys Let_def sum.case by (rule refl)
  show ?thesis
  proof (cases "find_root ?s1")
    case (Inl e)
    then show ?thesis unfolding init by simp
  next
    case (Inr r)
    have c: "check_subtree limit (?s1\<lparr>root := Some r\<rparr>) r = check_subtree limit s0 r"
      by (rule check_subtree_parameters) simp
    show ?thesis
    proof (cases "check_subtree limit s0 r")
      case (Inl e)
      with Inr c show ?thesis unfolding init
        by (simp add: validate_hierarchical_structure_def)
    next
      case (Inr visited)
      have "card (name ` set ps - visited) \<noteq> 0 \<longleftrightarrow> \<not> name ` set ps \<subseteq> visited"
        by (simp add: card_eq_0_iff)
      with Inr \<open>find_root ?s1 = Inr r\<close> c show ?thesis unfolding init
        by (simp add: validate_hierarchical_structure_def)
    qed
  qed
qed

lemma fold_dependents:
  "fold (\<lambda>deps acc'. acc' \<union> set deps) ds acc = acc \<union> (\<Union>deps \<in> set ds. set deps)"
  by (induction ds arbitrary: acc) auto

lemma fold_dependent_parameter_names:
  "fold (\<lambda>parameter acc.
           if is_hierarchical parameter
           then fold (\<lambda>deps acc'. acc' \<union> set deps) (map snd (dependents parameter)) acc
           else acc) qs acc
   = acc \<union> dependent_names qs"
proof (induction qs arbitrary: acc)
  case Nil
  then show ?case by (simp add: dependent_names_def)
next
  case (Cons q qs)
  have "dependent_names (q # qs) =
      (if is_hierarchical q then (\<Union>deps \<in> snd ` set (dependents q). set deps) else {})
      \<union> dependent_names qs"
    unfolding dependent_names_def by auto
  then show ?case using Cons.IH by (auto simp: fold_dependents)
qed

lemma dependent_parameter_names_eq:
  "dependent_parameter_names d = dependent_names (map snd d)"
  unfolding dependent_parameter_names_def by (simp add: fold_dependent_parameter_names)

lemma find_SomeD: "find P xs = Some x \<Longrightarrow> x \<in> set xs \<and> P x"
  by (induction xs) (auto split: if_splits)

lemma find_root_result:
  assumes "SearchSpace_init_as c ps pcs = Inr s0"
  shows "if card (name ` set ps - dependent_names ps) \<noteq> 1
         then find_root (s0\<lparr>all_parameter_names := Some (name ` set ps)\<rparr>)
                = Inl (NotImplementedError_no_root (dependent_names ps) (length ps)
                        (name ` set ps - dependent_names ps))
         else \<exists>r \<in> set ps.
                find_root (s0\<lparr>all_parameter_names := Some (name ` set ps)\<rparr>) = Inr r \<and>
                name ` set ps - dependent_names ps = {name r} \<and>
                map_of (parameters s0) (name r) = Some r"
proof -
  let ?d = "map (\<lambda>p. (name p, p)) ps"
  let ?S = "name ` set ps - dependent_names ps"
  from SearchSpace_init_parameters[OF assms]
  have dist: "distinct (map name ps)" and par: "parameters s0 = ?d" by simp_all
  have dep: "dependent_parameter_names ?d = dependent_names ps"
    by (simp add: dependent_parameter_names_eq comp_def)
  have fr: "find_root (s0\<lparr>all_parameter_names := Some (name ` set ps)\<rparr>) =
      (if card ?S \<noteq> 1
       then Inl (NotImplementedError_no_root (dependent_names ps) (length ps) ?S)
       else pop_lookup ?d ?S)"
    by (simp add: find_root_def par dep Let_def)
  show ?thesis
  proof (cases "card ?S = 1")
    case False
    then show ?thesis unfolding fr by simp
  next
    case True
    then obtain k where k: "?S = {k}" by (rule card_1_singletonE)
    have kS: "k \<in> ?S" unfolding k by simp
    then have "k \<in> name ` set ps" by simp
    then obtain p where p: "p \<in> set ps" "name p = k" by (auto simp: image_iff)
    have "(name p, p) \<in> set ?d" using p(1) by simp
    moreover have "(\<lambda>(k', x). k' \<in> ?S) (name p, p)" using kS p(2) by simp
    ultimately have "\<exists>kv \<in> set ?d. (\<lambda>(k', x). k' \<in> ?S) kv" by (rule bexI[rotated])
    then obtain kv where f: "find (\<lambda>(k', x). k' \<in> ?S) ?d = Some kv"
      by (cases "find (\<lambda>(k', x). k' \<in> ?S) ?d") (auto simp: find_None_iff)
    obtain k' r where kv: "kv = (k', r)" by (cases kv)
    from find_SomeD[OF f] have "kv \<in> set ?d" "(\<lambda>(k', x). k' \<in> ?S) kv"
      by simp_all
    then have "r \<in> set ps" "name r = k'" "k' \<in> {k}" unfolding kv k[symmetric] by auto
    then have r: "r \<in> set ps" "name r = k" by simp_all
    have m: "map_of ?d (name r) = Some r"
      using dist r(1) by (intro map_of_is_SomeI) (auto simp: comp_def)
    have "pop_lookup ?d ?S = Inr r" by (simp only: pop_lookup_def f kv option.case prod.case)
    with True have "find_root (s0\<lparr>all_parameter_names := Some (name ` set ps)\<rparr>) = Inr r"
      unfolding fr by simp
    moreover have "?S = {name r}" using k r(2) by simp
    moreover have "map_of (parameters s0) (name r) = Some r" unfolding par by (rule m)
    ultimately have "\<exists>r \<in> set ps.
        find_root (s0\<lparr>all_parameter_names := Some (name ` set ps)\<rparr>) = Inr r \<and>
        ?S = {name r} \<and> map_of (parameters s0) (name r) = Some r"
      using r(1) by blast
    with True show ?thesis by simp
  qed
qed

lemma reduce_disjoint_union_subset:
  assumes "reduce_disjoint_union sub acc ns = Inr u" and "acc \<subseteq> K"
    and "\<And>n v. sub n = Inr v \<Longrightarrow> v \<subseteq> K"
  shows "u \<subseteq> K"
  using assms(1,2)
proof (induction ns arbitrary: acc)
  case Nil
  then show ?case by simp
next
  case (Cons n ns)
  from Cons.prems(1) obtain v where v: "sub n = Inr v"
    and r: "reduce_disjoint_union sub (acc \<union> v) ns = Inr u"
    by (auto simp: disjoint_union_def split: sum.splits if_splits)
  from assms(3)[OF v] Cons.prems(2) have "acc \<union> v \<subseteq> K" by simp
  from Cons.IH[OF r this] show ?case .
qed

lemma check_subtree_visited_known:
  assumes "\<forall>k p. map_of (parameters s) k = Some p \<longrightarrow> name p = k"
    and "name rt \<in> fst ` set (parameters s)"
    and "check_subtree limit s rt = Inr V"
  shows "V \<subseteq> fst ` set (parameters s)"
  using assms(2,3)
proof (induction limit arbitrary: rt V)
  case 0
  then show ?case by simp
next
  case (Suc limit)
  let ?K = "fst ` set (parameters s)"
  have sub: "v \<subseteq> ?K" if "visited_in_subtree limit s n = Inr v" for n v
  proof -
    from that obtain p where p: "map_of (parameters s) n = Some p"
      and c: "check_subtree limit s p = Inr v"
      by (auto simp: visited_in_subtree_def getitem_def split: option.splits sum.splits)
    from p assms(1) have "name p = n" by blast
    moreover from map_of_SomeD[OF p] have "n \<in> ?K" by force
    ultimately show ?thesis using Suc.IH[OF _ c] by simp
  qed
  show ?case
  proof (cases "is_hierarchical rt")
    case False
    with Suc.prems show ?thesis by (auto simp: check_subtree_Suc)
  next
    case True
    with Suc.prems(2) obtain first rest v0 u where
      f: "visited_in_subtree limit s first = Inr v0" and
      r: "reduce_disjoint_union (visited_in_subtree limit s) v0 rest = Inr u" and
      V: "V = {name rt} \<union> u"
      unfolding check_subtree_Suc by (auto split: list.splits sum.splits)
    from sub[OF f] have v0: "v0 \<subseteq> ?K" .
    have "u \<subseteq> ?K" by (rule reduce_disjoint_union_subset[OF r v0]) (rule sub)
    with Suc.prems(1) show ?thesis unfolding V by simp
  qed
qed


lemma SearchSpace_init_no_constraints:
  "distinct (map name ps) \<Longrightarrow> SearchSpace_init_as c ps None = Inr (example_base c ps)"
  by (simp add: SearchSpace_init_as_def names_not_unique_image set_parameter_constraints_def
      dict_of_parameters_distinct example_base_def)

text \<open>
  C1. Construction of a \<open>HierarchicalSearchSpace\<close> computes the set of the names that
  appear in the dependents of a hierarchical parameter, under any value. It fails unless
  exactly one parameter name of the space is outside that set: with no candidate as with
  two or more. When the base constructor has succeeded, the failure is the
  \<open>NotImplementedError\<close> of \<open>_find_root\<close>, which carries the dependent names, the number
  of parameters and the candidates. On success the root is the parameter of the input with
  that unique name, the one the space stores under it.
\<close>

theorem find_root_unique:
  "(card (name ` set ps - dependent_names ps) \<noteq> 1 \<longrightarrow>
      (\<exists>e. HierarchicalSearchSpace_init limit ps pcs = Inl e)) \<and>
   (\<forall>s0. SearchSpace_init_as HierarchicalSearchSpace_cls ps pcs = Inr s0 \<and>
         card (name ` set ps - dependent_names ps) \<noteq> 1 \<longrightarrow>
         HierarchicalSearchSpace_init limit ps pcs =
           Inl (NotImplementedError_no_root (dependent_names ps) (length ps)
                  (name ` set ps - dependent_names ps))) \<and>
   (\<forall>s. HierarchicalSearchSpace_init limit ps pcs = Inr s \<longrightarrow>
        (\<exists>r \<in> set ps. root s = Some r \<and>
           name ` set ps - dependent_names ps = {name r} \<and>
           map_of (parameters s) (name r) = Some r))"
proof (cases "SearchSpace_init_as HierarchicalSearchSpace_cls ps pcs")
  case (Inl e)
  then show ?thesis by (simp add: HierarchicalSearchSpace_init_def)
next
  case (Inr s0)
  note steps = HierarchicalSearchSpace_init_steps[OF Inr, of limit]
  note fr = find_root_result[OF Inr]
  show ?thesis
  proof (cases "card (name ` set ps - dependent_names ps) = 1")
    case False
    with fr have "HierarchicalSearchSpace_init limit ps pcs =
        Inl (NotImplementedError_no_root (dependent_names ps) (length ps)
               (name ` set ps - dependent_names ps))"
      unfolding steps by simp
    with False Inr show ?thesis by simp
  next
    case True
    with fr obtain r where r: "r \<in> set ps"
      and f: "find_root (s0\<lparr>all_parameter_names := Some (name ` set ps)\<rparr>) = Inr r"
      and S: "name ` set ps - dependent_names ps = {name r}"
      and m: "map_of (parameters s0) (name r) = Some r"
      by auto
    have "\<exists>r \<in> set ps. root s = Some r \<and>
           name ` set ps - dependent_names ps = {name r} \<and>
           map_of (parameters s) (name r) = Some r"
      if "HierarchicalSearchSpace_init limit ps pcs = Inr s" for s
    proof -
      from that have "s = s0\<lparr>all_parameter_names := Some (name ` set ps), root := Some r\<rparr>"
        unfolding steps f by (auto split: sum.splits if_splits)
      with r S m show ?thesis by auto
    qed
    with True show ?thesis by simp
  qed
qed

lemma dependent_names_Nil: "dependent_names [] = {}"
  by (simp add: dependent_names_def)

lemma dependent_names_Cons:
  "dependent_names (q # qs) =
     (if is_hierarchical q then set (concat (map snd (dependents q))) else {}) \<union> dependent_names qs"
  unfolding dependent_names_def by auto

lemmas hierarchy_eval =
  HierarchicalSearchSpace_init_def SearchSpace_init_as_def example_base_def
  dict_of_parameters_def set_parameter_constraints_def find_root_def
  dependent_parameter_names_def pop_lookup_def validate_hierarchical_structure_def
  getitem_def disjoint_union_def visited_in_subtree_def generator_exit_def example_leaf_def
  example_choice_def
  Let_def numeral_3_eq_3 insert_Diff_if

theorem find_root_unique_witness:
  "name ` set example_tree - dependent_names example_tree = {''A''} \<and>
   (\<exists>s :: (nat, int) search_space.
      HierarchicalSearchSpace_init 3 example_tree None = Inr s \<and>
      root s = Some (example_choice 1 ''A'' [(Some 1, [''B'']), (Some 2, [''C''])])) \<and>
   card (name ` set example_two_roots - dependent_names example_two_roots) \<noteq> 1 \<and>
   HierarchicalSearchSpace_init 3 example_two_roots
       (None :: (nat, int) parameter_constraint list option) =
     Inl (NotImplementedError_no_root (dependent_names example_two_roots)
            (length example_two_roots)
            (name ` set example_two_roots - dependent_names example_two_roots))"
proof -
  let ?A = "example_choice 1 ''A'' [(Some 1, [''B'']), (Some 2, [''C''])]"
  have S: "name ` set example_tree - dependent_names example_tree = {''A''}"
    by (simp add: example_tree_def dependent_names_Nil dependent_names_Cons example_leaf_def
        example_choice_def insert_Diff_if)
  have ok: "HierarchicalSearchSpace_init 3 example_tree
      (None :: (nat, int) parameter_constraint list option)
      = Inr ((example_base HierarchicalSearchSpace_cls example_tree)
               \<lparr>all_parameter_names := Some {''A'', ''B'', ''C''}, root := Some ?A\<rparr>)"
    by (simp add: hierarchy_eval example_tree_def)
  from find_root_unique[of example_tree 3 None, THEN conjunct2, THEN conjunct2, rule_format, OF ok]
  obtain r where "r \<in> set example_tree"
    "root ((example_base HierarchicalSearchSpace_cls example_tree)
               \<lparr>all_parameter_names := Some {''A'', ''B'', ''C''}, root := Some ?A\<rparr>) = Some r"
    "name ` set example_tree - dependent_names example_tree = {name r}"
    by blast
  then have r1: "\<exists>s :: (nat, int) search_space.
      HierarchicalSearchSpace_init 3 example_tree None = Inr s \<and> root s = Some ?A"
    using ok by simp
  have d: "distinct (map name example_two_roots)"
    by (simp add: example_two_roots_def example_leaf_def example_choice_def)
  have S2: "name ` set example_two_roots - dependent_names example_two_roots = {''A'', ''D''}"
    by (simp add: example_two_roots_def dependent_names_Nil dependent_names_Cons example_leaf_def
        example_choice_def insert_Diff_if)
  have c: "card (name ` set example_two_roots - dependent_names example_two_roots) \<noteq> 1"
    unfolding S2 by simp
  from find_root_unique[of example_two_roots 3 None, THEN conjunct2, THEN conjunct1, rule_format,
      OF conjI[OF SearchSpace_init_no_constraints[OF d] c]]
  have r2: "HierarchicalSearchSpace_init 3 example_two_roots
       (None :: (nat, int) parameter_constraint list option) =
     Inl (NotImplementedError_no_root (dependent_names example_two_roots)
            (length example_two_roots)
            (name ` set example_two_roots - dependent_names example_two_roots))" .
  from S r1 c r2 show ?thesis by (intro conjI)
qed

text \<open>
  C3. When the base constructor and the root discovery have succeeded and the validation
  of the subtree of the root returns a set of visited names, that set holds only names
  of the space; if it is the set of all names, construction succeeds, and if a name of
  the space is missing from it, construction fails with the \<open>UserInputError\<close> that
  carries the missing names. Every constructed \<open>HierarchicalSearchSpace\<close> records the set
  of all its parameter names, and the validation of its root visits exactly that set.
\<close>

theorem validation_reaches_all_parameters:
  "(\<forall>s0 r visited.
      SearchSpace_init_as HierarchicalSearchSpace_cls ps pcs = Inr s0 \<and>
      find_root (s0\<lparr>all_parameter_names := Some (name ` set ps)\<rparr>) = Inr r \<and>
      check_subtree limit s0 r = Inr visited \<longrightarrow>
        visited \<subseteq> name ` set ps \<and>
        (if visited = name ` set ps
         then HierarchicalSearchSpace_init limit ps pcs =
                Inr (s0\<lparr>all_parameter_names := Some (name ` set ps), root := Some r\<rparr>)
         else name ` set ps - visited \<noteq> {} \<and>
              HierarchicalSearchSpace_init limit ps pcs =
                Inl (UserInputError_unreachable (name ` set ps - visited)))) \<and>
   (\<forall>s. HierarchicalSearchSpace_init limit ps pcs = Inr s \<longrightarrow>
        all_parameter_names s = Some (name ` set ps) \<and>
        (\<exists>r. root s = Some r \<and> check_subtree limit s r = Inr (name ` set ps)))"
proof -
  have first: "visited \<subseteq> name ` set ps \<and>
        (if visited = name ` set ps
         then HierarchicalSearchSpace_init limit ps pcs =
                Inr (s0\<lparr>all_parameter_names := Some (name ` set ps), root := Some r\<rparr>)
         else name ` set ps - visited \<noteq> {} \<and>
              HierarchicalSearchSpace_init limit ps pcs =
                Inl (UserInputError_unreachable (name ` set ps - visited)))"
    if init: "SearchSpace_init_as HierarchicalSearchSpace_cls ps pcs = Inr s0"
      and f: "find_root (s0\<lparr>all_parameter_names := Some (name ` set ps)\<rparr>) = Inr r"
      and c: "check_subtree limit s0 r = Inr visited"
    for s0 r visited
  proof -
    note par = SearchSpace_init_parameters(1,2)[OF init]
    have keys: "fst ` set (parameters s0) = name ` set ps"
      unfolding par(2) by (simp add: image_image)
    have wf: "\<forall>k p. map_of (parameters s0) k = Some p \<longrightarrow> name p = k"
      unfolding par(2) by (auto dest!: map_of_SomeD)
    from find_root_result[OF init] f have "name r \<in> name ` set ps"
      by (auto split: if_splits)
    then have "name r \<in> fst ` set (parameters s0)" unfolding keys .
    from check_subtree_visited_known[OF wf this c] have sub: "visited \<subseteq> name ` set ps"
      unfolding keys .
    have res: "HierarchicalSearchSpace_init limit ps pcs =
        (if name ` set ps \<subseteq> visited
         then Inr (s0\<lparr>all_parameter_names := Some (name ` set ps), root := Some r\<rparr>)
         else Inl (UserInputError_unreachable (name ` set ps - visited)))"
      by (simp add: HierarchicalSearchSpace_init_steps[OF init] f c)
    show ?thesis
    proof (cases "visited = name ` set ps")
      case True
      then show ?thesis unfolding res by simp
    next
      case False
      with sub have "\<not> name ` set ps \<subseteq> visited" by blast
      with sub False show ?thesis unfolding res by auto
    qed
  qed
  have second: "all_parameter_names s = Some (name ` set ps) \<and>
        (\<exists>r. root s = Some r \<and> check_subtree limit s r = Inr (name ` set ps))"
    if ok: "HierarchicalSearchSpace_init limit ps pcs = Inr s" for s
  proof -
    from ok obtain s0 where init: "SearchSpace_init_as HierarchicalSearchSpace_cls ps pcs = Inr s0"
      by (auto simp: HierarchicalSearchSpace_init_def split: sum.splits)
    from ok obtain r visited where
      f: "find_root (s0\<lparr>all_parameter_names := Some (name ` set ps)\<rparr>) = Inr r"
      and c: "check_subtree limit s0 r = Inr visited"
      by (auto simp: HierarchicalSearchSpace_init_steps[OF init] split: sum.splits)
    from first[OF init f c] ok
    have v: "visited = name ` set ps"
      and s: "s = s0\<lparr>all_parameter_names := Some (name ` set ps), root := Some r\<rparr>"
      by (auto split: if_splits)
    have "check_subtree limit s r = check_subtree limit s0 r"
      by (rule check_subtree_parameters) (simp add: s)
    with c v s show ?thesis by simp
  qed
  from first second show ?thesis by blast
qed


theorem validation_reaches_all_parameters_witness:
  "SearchSpace_init_as HierarchicalSearchSpace_cls example_orphans None
     = Inr (example_base HierarchicalSearchSpace_cls example_orphans) \<and>
   find_root ((example_base HierarchicalSearchSpace_cls example_orphans)
                \<lparr>all_parameter_names := Some (name ` set example_orphans)\<rparr>)
     = Inr (example_leaf 1 ''R'') \<and>
   check_subtree 3 (example_base HierarchicalSearchSpace_cls example_orphans)
       (example_leaf 1 ''R'') = Inr {''R''} \<and>
   name ` set example_orphans - {''R''} = {''X'', ''Y''} \<and>
   HierarchicalSearchSpace_init 3 example_orphans
       (None :: (nat, int) parameter_constraint list option)
     = Inl (UserInputError_unreachable (name ` set example_orphans - {''R''}))"
proof -
  let ?s0 = "example_base HierarchicalSearchSpace_cls example_orphans"
  have d: "distinct (map name example_orphans)"
    by (simp add: example_orphans_def example_leaf_def example_choice_def)
  note init = SearchSpace_init_no_constraints[OF d, of HierarchicalSearchSpace_cls]
  have f: "find_root (?s0\<lparr>all_parameter_names := Some (name ` set example_orphans)\<rparr>)
      = Inr (example_leaf 1 ''R'')"
    by (simp add: hierarchy_eval example_orphans_def)
  have c: "check_subtree 3 ?s0 (example_leaf 1 ''R'') = Inr {''R''}"
    by (simp add: hierarchy_eval example_orphans_def)
  have n: "name ` set example_orphans - {''R''} = {''X'', ''Y''}"
    by (simp add: example_orphans_def example_leaf_def example_choice_def insert_Diff_if)
  have ne: "{''R''} \<noteq> name ` set example_orphans"
    by (simp add: example_orphans_def example_leaf_def example_choice_def) 
  from validation_reaches_all_parameters[of example_orphans None 3, THEN conjunct1, rule_format,
      OF conjI[OF init conjI[OF f c]]] ne
  have "HierarchicalSearchSpace_init 3 example_orphans
       (None :: (nat, int) parameter_constraint list option)
     = Inl (UserInputError_unreachable (name ` set example_orphans - {''R''}))"
    by simp
  with init f c n show ?thesis by (intro conjI)
qed

lemma check_subtree_shared_prefix:
  assumes "is_hierarchical rt"
    and "concat (map snd (dependents rt)) = ns1 @ ns2"
    and "list_all2 (\<lambda>n v. visited_in_subtree limit self n = Inr v) ns1 vs1"
    and "\<not> pairwise_disjoint vs1"
  shows "\<exists>shared. check_subtree (Suc limit) self rt = Inl (UserInputError_shared shared) \<and>
           shared \<noteq> {} \<and> shared \<subseteq> shared_names vs1"
proof -
  from assms(4) have "vs1 \<noteq> []" by (auto simp: pairwise_disjoint_def)
  then obtain v0 vs' where vs: "vs1 = v0 # vs'" by (cases vs1) auto
  with assms(3) obtain first rest where ns: "ns1 = first # rest"
    and f: "visited_in_subtree limit self first = Inr v0"
    and r: "list_all2 (\<lambda>n v. visited_in_subtree limit self n = Inr v) rest vs'"
    by (auto simp: list_all2_Cons2)
  from reduce_disjoint_union_result[OF r, of v0] assms(4) vs obtain shared where
    s: "reduce_disjoint_union (visited_in_subtree limit self) v0 rest
         = Inl (UserInputError_shared shared)"
    and "shared \<noteq> {}" "shared \<subseteq> shared_names vs1" by auto
  moreover have "check_subtree (Suc limit) self rt = Inl (UserInputError_shared shared)"
    unfolding check_subtree_Suc using assms(1,2) ns f
    by (simp add: reduce_disjoint_union_append s)
  ultimately show ?thesis by blast
qed

text \<open>
  C2. At every node that the validation reaches with depth to spare: the visited set of
  a parameter that is not hierarchical is its own name. For a hierarchical parameter, let
  the first dependents, in order, have the visited sets \<open>vs1\<close>. If two of these sets
  share a name, the node fails with the \<open>UserInputError\<close> of \<open>_disjoint_union\<close>, which
  carries a nonempty set of names, each in two of the subtrees. If they are pairwise
  disjoint: when they are all the dependents, the node returns its own name and their
  union; when the validation of the next dependent fails, the node fails in the same way.
  (With no dependent at all, \<open>next\<close> raises \<open>StopIteration\<close>.) A failure of the
  validation of the root is the failure of the construction.
\<close>

theorem check_subtree_disjoint_subtrees:
  "(\<not> is_hierarchical rt \<longrightarrow> check_subtree (Suc limit) self rt = Inr {name rt}) \<and>
   (is_hierarchical rt \<and> concat (map snd (dependents rt)) = ns1 @ ns2 \<and>
    list_all2 (\<lambda>n v. visited_in_subtree limit self n = Inr v) ns1 vs1 \<longrightarrow>
      (\<not> pairwise_disjoint vs1 \<longrightarrow>
         (\<exists>shared. check_subtree (Suc limit) self rt = Inl (UserInputError_shared shared) \<and>
            shared \<noteq> {} \<and> shared \<subseteq> shared_names vs1)) \<and>
      (pairwise_disjoint vs1 \<and> ns2 = [] \<and> ns1 \<noteq> [] \<longrightarrow>
         check_subtree (Suc limit) self rt = Inr ({name rt} \<union> \<Union>(set vs1))) \<and>
      (\<forall>e. pairwise_disjoint vs1 \<and> ns2 \<noteq> [] \<and> visited_in_subtree limit self (hd ns2) = Inl e
         \<longrightarrow> check_subtree (Suc limit) self rt = Inl e) \<and>
      (ns1 = [] \<and> ns2 = [] \<longrightarrow> check_subtree (Suc limit) self rt = Inl StopIteration)) \<and>
   (\<forall>s0 r e.
      SearchSpace_init_as HierarchicalSearchSpace_cls ps pcs = Inr s0 \<and>
      find_root (s0\<lparr>all_parameter_names := Some (name ` set ps)\<rparr>) = Inr r \<and>
      check_subtree lim s0 r = Inl e \<longrightarrow>
        HierarchicalSearchSpace_init lim ps pcs = Inl e)"
proof (intro conjI allI impI)
  assume "\<not> is_hierarchical rt"
  then show "check_subtree (Suc limit) self rt = Inr {name rt}" by simp
next
  assume a: "is_hierarchical rt \<and> concat (map snd (dependents rt)) = ns1 @ ns2 \<and>
    list_all2 (\<lambda>n v. visited_in_subtree limit self n = Inr v) ns1 vs1"
    and "\<not> pairwise_disjoint vs1"
  then show "\<exists>shared. check_subtree (Suc limit) self rt = Inl (UserInputError_shared shared) \<and>
    shared \<noteq> {} \<and> shared \<subseteq> shared_names vs1"
    using check_subtree_shared_prefix[of rt ns1 ns2 limit self vs1] by blast
next
  assume a: "is_hierarchical rt \<and> concat (map snd (dependents rt)) = ns1 @ ns2 \<and>
    list_all2 (\<lambda>n v. visited_in_subtree limit self n = Inr v) ns1 vs1"
    and b: "pairwise_disjoint vs1 \<and> ns2 = [] \<and> ns1 \<noteq> []"
  from a b have "vs1 \<noteq> []" by (auto simp: list_all2_Nil2)
  with a b check_subtree_children[of rt limit self vs1]
  show "check_subtree (Suc limit) self rt = Inr ({name rt} \<union> \<Union>(set vs1))" by simp
next
  fix e
  assume a: "is_hierarchical rt \<and> concat (map snd (dependents rt)) = ns1 @ ns2 \<and>
    list_all2 (\<lambda>n v. visited_in_subtree limit self n = Inr v) ns1 vs1"
    and b: "pairwise_disjoint vs1 \<and> ns2 \<noteq> [] \<and> visited_in_subtree limit self (hd ns2) = Inl e"
  from b obtain n ns2' where "ns2 = n # ns2'" by (cases ns2) auto
  with a b check_subtree_child_error[of rt ns1 n ns2' limit self vs1 e]
  show "check_subtree (Suc limit) self rt = Inl e" by simp
next
  assume a: "is_hierarchical rt \<and> concat (map snd (dependents rt)) = ns1 @ ns2 \<and>
    list_all2 (\<lambda>n v. visited_in_subtree limit self n = Inr v) ns1 vs1"
    and b: "ns1 = [] \<and> ns2 = []"
  then have "is_hierarchical rt" and "concat (map snd (dependents rt)) = []" by simp_all
  then show "check_subtree (Suc limit) self rt = Inl StopIteration"
    unfolding check_subtree_Suc by (simp only: if_True if_False not_True_eq_False list.case)
next
  fix s0 r e
  assume "SearchSpace_init_as HierarchicalSearchSpace_cls ps pcs = Inr s0 \<and>
      find_root (s0\<lparr>all_parameter_names := Some (name ` set ps)\<rparr>) = Inr r \<and>
      check_subtree lim s0 r = Inl e"
  then show "HierarchicalSearchSpace_init lim ps pcs = Inl e"
    by (simp add: HierarchicalSearchSpace_init_steps)
qed

theorem check_subtree_disjoint_subtrees_witness:
  "is_hierarchical (example_choice 1 ''A'' [(Some 1, [''B'']), (Some 2, [''C''])]) \<and>
   list_all2
     (\<lambda>n v. visited_in_subtree 2 (example_base HierarchicalSearchSpace_cls example_diamond) n
              = Inr v)
     [''B'', ''C''] [{''D'', ''B''}, {''D'', ''C''}] \<and>
   \<not> pairwise_disjoint [{''D'', ''B''}, {''D'', ''C''}] \<and>
   (\<exists>shared.
      check_subtree (Suc 2) (example_base HierarchicalSearchSpace_cls example_diamond)
        (example_choice 1 ''A'' [(Some 1, [''B'']), (Some 2, [''C''])])
        = Inl (UserInputError_shared shared) \<and>
      shared \<noteq> {} \<and> shared \<subseteq> shared_names [{''D'', ''B''}, {''D'', ''C''}]) \<and>
   check_subtree 3 (example_base HierarchicalSearchSpace_cls example_diamond)
        (example_choice 1 ''A'' [(Some 1, [''B'']), (Some 2, [''C''])])
        = Inl (UserInputError_shared {''D''}) \<and>
   HierarchicalSearchSpace_init 3 example_diamond
       (None :: (nat, int) parameter_constraint list option)
     = Inl (UserInputError_shared {''D''}) \<and>
   pairwise_disjoint [{''B''}, {''C''}] \<and>
   check_subtree (Suc 2) (example_base HierarchicalSearchSpace_cls example_tree)
        (example_choice 1 ''A'' [(Some 1, [''B'']), (Some 2, [''C''])])
        = Inr ({''A''} \<union> \<Union>(set [{''B''}, {''C''}]))"
proof -
  let ?A = "example_choice 1 ''A'' [(Some 1, [''B'']), (Some 2, [''C''])]"
  let ?s0 = "example_base HierarchicalSearchSpace_cls example_diamond"
  let ?t0 = "example_base HierarchicalSearchSpace_cls example_tree"
  let ?vs = "[{''D'', ''B''}, {''D'', ''C''}]"
  have h: "is_hierarchical ?A" by (simp add: example_choice_def)
  have ns: "concat (map snd (dependents ?A)) = [''B'', ''C''] @ []"
    by (simp add: example_choice_def)
  have l: "list_all2 (\<lambda>n v. visited_in_subtree 2 ?s0 n = Inr v) [''B'', ''C''] ?vs"
    by (simp add: hierarchy_eval example_diamond_def numeral_2_eq_2)
  have np: "\<not> pairwise_disjoint ?vs"
    by (simp add: pairwise_disjoint_Cons_set)
  note t = check_subtree_disjoint_subtrees[of ?A 2 ?s0 "[''B'', ''C'']" "[]" ?vs
      example_diamond None 3]
  from t[THEN conjunct2, THEN conjunct1, rule_format, OF conjI[OF h conjI[OF ns l]],
      THEN conjunct1, rule_format, OF np]
  have sh: "\<exists>shared. check_subtree (Suc 2) ?s0 ?A = Inl (UserInputError_shared shared) \<and>
      shared \<noteq> {} \<and> shared \<subseteq> shared_names ?vs" .
  have d: "distinct (map name example_diamond)"
    by (simp add: example_diamond_def example_leaf_def example_choice_def)
  note init = SearchSpace_init_no_constraints[OF d, of HierarchicalSearchSpace_cls]
  have f: "find_root (?s0\<lparr>all_parameter_names := Some (name ` set example_diamond)\<rparr>) = Inr ?A"
    by (simp add: hierarchy_eval example_diamond_def)
  have c: "check_subtree 3 ?s0 ?A = Inl (UserInputError_shared {''D''})"
    by (simp add: hierarchy_eval example_diamond_def)
  from t[THEN conjunct2, THEN conjunct2, rule_format, OF conjI[OF init conjI[OF f c]]]
  have r: "HierarchicalSearchSpace_init 3 example_diamond
       (None :: (nat, int) parameter_constraint list option)
     = Inl (UserInputError_shared {''D''})" .
  have l2: "list_all2 (\<lambda>n v. visited_in_subtree 2 ?t0 n = Inr v) [''B'', ''C''] [{''B''}, {''C''}]"
    by (simp add: hierarchy_eval example_tree_def numeral_2_eq_2)
  have pd: "pairwise_disjoint [{''B''}, {''C''}]"
    by (simp add: pairwise_disjoint_Cons_set[of _ "[_]"] pairwise_disjoint_Cons_set[of _ "[]"]
        pairwise_disjoint_def[of "[]"])
  have ne: "[''B'', ''C''] \<noteq> []" by simp
  note t2 = check_subtree_disjoint_subtrees[of ?A 2 ?t0 "[''B'', ''C'']" "[]" "[{''B''}, {''C''}]"
      example_tree None 3]
  from t2[THEN conjunct2, THEN conjunct1, rule_format, OF conjI[OF h conjI[OF ns l2]],
      THEN conjunct2, THEN conjunct1, rule_format, OF conjI[OF pd conjI[OF refl ne]]]
  have ok: "check_subtree (Suc 2) ?t0 ?A = Inr ({''A''} \<union> \<Union>(set [{''B''}, {''C''}]))"
    by (simp add: example_choice_def)
  from h l np sh c r pd ok show ?thesis by (intro conjI)
qed

section \<open>Cloning\<close>

lemma param_eq_sym: "param_eq p q \<Longrightarrow> param_eq q p"
  unfolding param_eq_def by (cases p, cases q) simp

lemma param_eq_trans: "param_eq p q \<Longrightarrow> param_eq q r \<Longrightarrow> param_eq p r"
  unfolding param_eq_def by (cases p, cases q, cases r) simp

lemma validate_constraint_parameters_error:
  "validate_constraint_parameters ps qs = Inl e \<Longrightarrow>
     (\<exists>n. e = ValueError_not_in_space n) \<or> (\<exists>n. e = ValueError_definition_mismatch n)"
  by (induction qs) (auto split: option.splits if_splits)

lemma validate_constraint_names_error:
  "validate_constraint_names ps ns = Inl e \<Longrightarrow> (\<exists>n. e = ValueError_not_in_space n)"
  by (induction ns) (auto split: option.splits if_splits)

lemma validate_constraint_error:
  "validate_constraint ps c = Inl e \<Longrightarrow>
     (\<exists>n. e = ValueError_not_in_space n) \<or> (\<exists>n. e = ValueError_definition_mismatch n)"
proof (cases c)
  case (OrderConstraint l u chk)
  assume "validate_constraint ps c = Inl e"
  with OrderConstraint have "validate_constraint_parameters ps [l, u] = Inl e" by simp
  then show ?thesis by (rule validate_constraint_parameters_error)
next
  case (SumConstraint qs chk)
  assume "validate_constraint ps c = Inl e"
  with SumConstraint have "validate_constraint_parameters ps qs = Inl e" by simp
  then show ?thesis by (rule validate_constraint_parameters_error)
next
  case (ParameterConstraint cd chk)
  assume "validate_constraint ps c = Inl e"
  with ParameterConstraint have "validate_constraint_names ps (map fst cd) = Inl e" by simp
  from validate_constraint_names_error[OF this] show ?thesis by blast
qed

lemma validate_parameter_constraints_error:
  "validate_parameter_constraints ps cs = Inl e \<Longrightarrow>
     (\<exists>n. e = ValueError_not_in_space n) \<or> (\<exists>n. e = ValueError_definition_mismatch n)"
proof (induction cs)
  case Nil
  then show ?case by simp
next
  case (Cons c cs)
  show ?case
  proof (cases "validate_constraint ps c")
    case (Inl e')
    with Cons.prems have "e' = e" by simp
    with Inl validate_constraint_error show ?thesis by blast
  next
    case (Inr u)
    with Cons show ?thesis by simp
  qed
qed

lemma SearchSpace_init_error:
  assumes "SearchSpace_init_as c ps pcs = Inl e"
  shows "e = ValueError_names_not_unique \<or> (\<exists>n. e = ValueError_not_in_space n) \<or>
         (\<exists>n. e = ValueError_definition_mismatch n)"
proof (cases "distinct (map name ps)")
  case False
  with assms show ?thesis by (simp add: SearchSpace_init_as_def names_not_unique_image)
next
  case True
  let ?cs = "case pcs of None \<Rightarrow> [] | Some cs \<Rightarrow> cs"
  show ?thesis
  proof (cases "validate_parameter_constraints (dict_of_parameters ps) ?cs")
    case (Inl e')
    with assms True have "e' = e"
      by (simp add: SearchSpace_init_as_def names_not_unique_image set_parameter_constraints_def)
    with Inl validate_parameter_constraints_error show ?thesis by blast
  next
    case (Inr u)
    then have "validate_parameter_constraints (dict_of_parameters ps) ?cs = Inr ()" by simp
    from this rebind_constraints_ok[OF this] assms True show ?thesis
      by (auto simp: SearchSpace_init_as_def names_not_unique_image set_parameter_constraints_def)
  qed
qed

lemma bound_to_valid: "bound_to ps c \<Longrightarrow> is_structural c \<Longrightarrow> constraint_valid ps c"
  by (cases c) (auto simp: bound_to_def constraint_valid_def param_eq_refl)

lemma rebind_constraint_structural:
  "rebind_constraint ps c = Inr c' \<Longrightarrow> is_structural c' = is_structural c"
  by (cases c) (auto split: sum.splits)

lemma rebind_constraint_valid:
  assumes "validate_constraint ps c = Inr ()" and "rebind_constraint ps c = Inr c'"
  shows "bound_to ps c' \<and> constraint_valid ps c'"
proof (cases "is_structural c")
  case True
  with rebind_constraint_structural[OF assms(2)] have "is_structural c'" by simp
  with rebind_constraint_bound[OF assms] bound_to_valid show ?thesis by blast
next
  case False
  then obtain cd chk where "c = ParameterConstraint cd chk" by (cases c) auto
  with assms have "c' = c" by simp
  with assms(1) rebind_constraint_bound[OF assms] show ?thesis
    by (simp add: validate_constraint_iff)
qed

lemma rebind_constraints_valid:
  assumes "validate_parameter_constraints ps cs = Inr ()" and "rebind_constraints ps cs = Inr cs'"
  shows "\<forall>c' \<in> set cs'. bound_to ps c' \<and> constraint_valid ps c'"
  using assms
proof (induction cs arbitrary: cs')
  case Nil
  then show ?case by simp
next
  case (Cons c cs)
  from Cons.prems obtain c1 cs1 where
    v: "validate_constraint ps c = Inr ()" and vs: "validate_parameter_constraints ps cs = Inr ()"
    and r: "rebind_constraint ps c = Inr c1" and rs: "rebind_constraints ps cs = Inr cs1"
    and e: "cs' = c1 # cs1"
    by (auto split: sum.splits)
  from rebind_constraint_valid[OF v r] Cons.IH[OF vs rs] show ?case by (simp add: e)
qed

lemma SearchSpace_init_constraints:
  assumes "SearchSpace_init_as c ps pcs = Inr s"
  shows "\<forall>c' \<in> set (parameter_constraints s).
           bound_to (parameters s) c' \<and> constraint_valid (parameters s) c'"
proof -
  let ?cs = "case pcs of None \<Rightarrow> [] | Some cs \<Rightarrow> cs"
  let ?d = "dict_of_parameters ps"
  from assms have v: "validate_parameter_constraints ?d ?cs = Inr ()"
    by (auto simp: SearchSpace_init_as_def set_parameter_constraints_def Let_def
        split: if_splits sum.splits)
  from assms obtain cs' where r: "rebind_constraints ?d ?cs = Inr cs'"
    and p: "parameters s = ?d" and pc: "parameter_constraints s = cs'"
    by (auto simp: SearchSpace_init_as_def set_parameter_constraints_def Let_def
        split: if_splits sum.splits)
  from rebind_constraints_valid[OF v r] show ?thesis unfolding p pc .
qed


lemma rebind_constraints_length:
  "rebind_constraints ps cs = Inr cs' \<Longrightarrow> length cs' = length cs"
  by (induction cs arbitrary: cs') (auto split: sum.splits)

lemma map_of_named:
  assumes "distinct (map name ps)" and "q \<in> set ps"
  shows "map_of (map (\<lambda>p. (name p, f p)) ps) (name q) = Some (f q)"
  using assms by (intro map_of_is_SomeI) (auto simp: comp_def)

lemma map_of_named_None:
  "map_of (map (\<lambda>p. (name p, f p)) ps) n = None \<longleftrightarrow> n \<notin> name ` set ps"
  by (simp add: map_of_eq_None_iff image_image)

lemma HierarchicalSearchSpace_init_base:
  assumes "HierarchicalSearchSpace_init limit ps pcs = Inr s"
  shows "\<exists>s0 r. SearchSpace_init_as HierarchicalSearchSpace_cls ps pcs = Inr s0 \<and>
           s = s0\<lparr>all_parameter_names := Some (name ` set ps), root := Some r\<rparr>"
proof -
  from assms obtain s0 where init: "SearchSpace_init_as HierarchicalSearchSpace_cls ps pcs = Inr s0"
    by (auto simp: HierarchicalSearchSpace_init_def split: sum.splits)
  from assms show ?thesis
    by (auto simp: HierarchicalSearchSpace_init_steps[OF init] init split: sum.splits if_splits)
qed

lemma clone_succeeds:
  assumes init: "SearchSpace_init_as c ps pcs = Inr s0"
    and same: "parameters self = parameters s0"
      "parameter_constraints self = parameter_constraints s0"
    and H1: "\<forall>p. param_eq (pclone p) p"
    and H2: "\<forall>c. constraint_dict_keys (cclone c) = constraint_dict_keys c \<and>
               list_all2 param_eq (constraint_parameters (cclone c)) (constraint_parameters c)"
  shows "\<exists>s'. clone pclone cclone self = Inr s' \<and>
           parameters s' = map (\<lambda>p. (name p, pclone p)) ps \<and>
           length (parameter_constraints s') = length (parameter_constraints self)"
proof -
  let ?d = "map (\<lambda>p. (name p, p)) ps"
  let ?d' = "map (\<lambda>p. (name p, pclone p)) ps"
  let ?cs = "map cclone (parameter_constraints self)"
  note par = SearchSpace_init_parameters(1,2)[OF init]
  have nm: "name (pclone p) = name p" for p using H1 param_eq_name by blast
  then have names: "map name (map pclone ps) = map name ps" by simp
  have dict: "dict_of_parameters (map pclone ps) = ?d'"
    using dict_of_parameters_distinct[of "map pclone ps"] par(1) names
    by (simp add: comp_def nm)
  have valid: "constraint_valid ?d' (cclone c0)" if c0: "c0 \<in> set (parameter_constraints self)" for c0
  proof -
    from SearchSpace_init_constraints[OF init] c0 same par(2)
    have b: "bound_to ?d c0" and v: "constraint_valid ?d c0" by auto
    from H2 have k: "constraint_dict_keys (cclone c0) = constraint_dict_keys c0"
      and l: "list_all2 param_eq (constraint_parameters (cclone c0)) (constraint_parameters c0)"
      by auto
    have keys: "\<forall>n \<in> set (constraint_dict_keys (cclone c0)). map_of ?d' n \<noteq> None"
    proof
      fix n assume "n \<in> set (constraint_dict_keys (cclone c0))"
      with k v have "map_of ?d n \<noteq> None" by (simp add: constraint_valid_def)
      then have "n \<in> name ` set ps" using map_of_named_None[of "\<lambda>p. p" ps n] by simp
      then show "map_of ?d' n \<noteq> None" using map_of_named_None[of pclone ps n] by simp
    qed
    have pars: "\<forall>p \<in> set (constraint_parameters (cclone c0)). \<forall>q. map_of ?d' (name p) = Some q
        \<longrightarrow> param_eq p q"
    proof (intro ballI allI impI)
      fix p q assume p: "p \<in> set (constraint_parameters (cclone c0))"
        and q: "map_of ?d' (name p) = Some q"
      from p obtain i where i: "i < length (constraint_parameters (cclone c0))"
        and pi: "p = constraint_parameters (cclone c0) ! i"
        by (auto simp: in_set_conv_nth)
      define p0 where "p0 = constraint_parameters c0 ! i"
      from l i have len: "i < length (constraint_parameters c0)"
        by (simp add: list_all2_lengthD)
      then have p0: "p0 \<in> set (constraint_parameters c0)" unfolding p0_def by simp
      from list_all2_nthD[OF l i] have e: "param_eq p p0" unfolding pi p0_def .
      from b p0 have "map_of ?d (name p0) = Some p0" by (simp add: bound_to_def)
      from map_of_SomeD[OF this] have "p0 \<in> set ps" by auto
      from map_of_named[OF par(1) this, of pclone] param_eq_name[OF e] q
      have "q = pclone p0" by simp
      with e H1 show "param_eq p q" using param_eq_sym param_eq_trans by blast
    qed
    from keys pars show ?thesis unfolding constraint_valid_def by blast
  qed
  then have v: "validate_parameter_constraints ?d' ?cs = Inr ()"
    by (simp add: validate_parameter_constraints_iff)
  from rebind_constraints_ok[OF v] obtain cs' where r: "rebind_constraints ?d' ?cs = Inr cs'"
    by blast
  have "distinct (map name (map pclone ps))" unfolding names by (rule par(1))
  then have nd: "\<not> card (set (map name (map pclone ps))) < length (map pclone ps)"
    unfolding names_not_unique_iff[of name "map pclone ps"] by simp
  let ?s' = "\<lparr>cls = SearchSpace_cls, parameters = ?d', parameter_constraints = cs',
              all_parameter_names = None, root = None\<rparr>"
  have "clone pclone cclone self = Inr ?s'"
    unfolding clone_def SearchSpace_init_def SearchSpace_init_as_def same(1) par(2)
    using nd by (simp add: comp_def dict set_parameter_constraints_def v r)
  with rebind_constraints_length[OF r] show ?thesis by simp
qed


text \<open>
  C10. \<open>clone()\<close> calls the constructor of \<open>SearchSpace\<close>: whatever it returns is of
  class \<open>SearchSpace\<close>, has neither a root nor a snapshot of names, casts arms as the base
  class does, and has no \<open>flatten\<close> method (the call is an \<open>AttributeError\<close>, not the
  \<open>NotImplementedError\<close> of the subclass); when it raises, the exception is one of the
  base constructor, never one of the root discovery or of the tree validation. For a
  constructed \<open>HierarchicalSearchSpace\<close>, whose own \<open>cast_arm\<close> and \<open>flatten\<close> raise
  \<open>NotImplementedError\<close>, \<open>clone()\<close> returns: the hypotheses are the contracts of
  \<open>Parameter.clone\<close> (a parameter equal to the original) and of
  \<open>ParameterConstraint.clone\<close> (the same names, over parameters equal to the originals).
\<close>

theorem clone_is_base_search_space:
  "(\<forall>s'. clone pclone cclone self = Inr s' \<longrightarrow>
        cls s' = SearchSpace_cls \<and> root s' = None \<and> all_parameter_names s' = None \<and>
        cast_arm s' arm = SearchSpace_cast_arm s' arm \<and>
        flatten s' = Inl (AttributeError ''flatten'')) \<and>
   (\<forall>e. clone pclone cclone self = Inl e \<longrightarrow>
        e = ValueError_names_not_unique \<or> (\<exists>n. e = ValueError_not_in_space n) \<or>
        (\<exists>n. e = ValueError_definition_mismatch n)) \<and>
   (HierarchicalSearchSpace_init limit ps pcs = Inr self \<and>
    (\<forall>p. param_eq (pclone p) p) \<and>
    (\<forall>c. constraint_dict_keys (cclone c) = constraint_dict_keys c \<and>
         list_all2 param_eq (constraint_parameters (cclone c)) (constraint_parameters c)) \<longrightarrow>
      cls self = HierarchicalSearchSpace_cls \<and>
      cast_arm self arm = Inl NotImplementedError \<and>
      flatten self = Inl NotImplementedError \<and>
      (\<exists>s'. clone pclone cclone self = Inr s' \<and>
            parameters s' = map (\<lambda>p. (name p, pclone p)) ps \<and>
            length (parameter_constraints s') = length (parameter_constraints self)))"
proof (intro conjI allI impI)
  fix s' assume c: "clone pclone cclone self = Inr s'"
  then have i: "SearchSpace_init_as SearchSpace_cls (map pclone (map snd (parameters self)))
      (Some (map cclone (parameter_constraints self))) = Inr s'"
    by (simp add: clone_def SearchSpace_init_def)
  from SearchSpace_init_parameters(3-5)[OF i]
  show cl: "cls s' = SearchSpace_cls" and "root s' = None" and "all_parameter_names s' = None"
    by simp_all
  from cl show "cast_arm s' arm = SearchSpace_cast_arm s' arm" by (simp add: cast_arm_def)
  from cl show "flatten s' = Inl (AttributeError ''flatten'')" by (simp add: flatten_def)
next
  fix e assume "clone pclone cclone self = Inl e"
  then have "SearchSpace_init_as SearchSpace_cls (map pclone (map snd (parameters self)))
      (Some (map cclone (parameter_constraints self))) = Inl e"
    by (simp add: clone_def SearchSpace_init_def)
  then show "e = ValueError_names_not_unique \<or> (\<exists>n. e = ValueError_not_in_space n) \<or>
        (\<exists>n. e = ValueError_definition_mismatch n)"
    by (rule SearchSpace_init_error)
next
  assume a: "HierarchicalSearchSpace_init limit ps pcs = Inr self \<and>
    (\<forall>p. param_eq (pclone p) p) \<and>
    (\<forall>c. constraint_dict_keys (cclone c) = constraint_dict_keys c \<and>
         list_all2 param_eq (constraint_parameters (cclone c)) (constraint_parameters c))"
  then obtain s0 r where init: "SearchSpace_init_as HierarchicalSearchSpace_cls ps pcs = Inr s0"
    and self: "self = s0\<lparr>all_parameter_names := Some (name ` set ps), root := Some r\<rparr>"
    using HierarchicalSearchSpace_init_base by blast
  from SearchSpace_init_parameters(3)[OF init] self
  show cl: "cls self = HierarchicalSearchSpace_cls" by simp
  from cl show "cast_arm self arm = Inl NotImplementedError" by (simp add: cast_arm_def)
  from cl show "flatten self = Inl NotImplementedError" by (simp add: flatten_def)
  have same: "parameters self = parameters s0"
    "parameter_constraints self = parameter_constraints s0"
    by (simp_all add: self)
  from a have H1: "\<forall>p. param_eq (pclone p) p"
    and H2: "\<forall>c. constraint_dict_keys (cclone c) = constraint_dict_keys c \<and>
         list_all2 param_eq (constraint_parameters (cclone c)) (constraint_parameters c)"
    by blast+
  show "\<exists>s'. clone pclone cclone self = Inr s' \<and>
            parameters s' = map (\<lambda>p. (name p, pclone p)) ps \<and>
            length (parameter_constraints s') = length (parameter_constraints self)"
    by (rule clone_succeeds[OF init same H1 H2])
qed


theorem clone_is_base_search_space_witness:
  "HierarchicalSearchSpace_init 3 example_tree (Some [example_tree_order 12 13])
     = Inr example_tree_space \<and>
   cls example_tree_space = HierarchicalSearchSpace_cls \<and>
   cast_arm example_tree_space \<lparr>arm_parameters = [(''B'', Some 1)], arm_name = None\<rparr>
     = Inl NotImplementedError \<and>
   (\<exists>s'. clone example_clone_parameter example_clone_constraint example_tree_space = Inr s' \<and>
      cls s' = SearchSpace_cls \<and> root s' = None \<and>
      parameters s' = map (\<lambda>p. (name p, example_clone_parameter p)) example_tree \<and>
      cast_arm s' \<lparr>arm_parameters = [(''B'', Some 1)], arm_name = None\<rparr>
        = SearchSpace_cast_arm s' \<lparr>arm_parameters = [(''B'', Some 1)], arm_name = None\<rparr> \<and>
      flatten s' = Inl (AttributeError ''flatten''))"
proof -
  let ?arm = "\<lparr>arm_parameters = [(''B'', Some (1::nat))], arm_name = None\<rparr>"
  have ok: "HierarchicalSearchSpace_init 3 example_tree (Some [example_tree_order 12 13])
      = Inr example_tree_space"
    by (simp add: hierarchy_eval example_tree_def example_tree_space_def example_tree_order_def
        param_eq_def dict_get_def)
  have H1: "\<forall>p. param_eq (example_clone_parameter p) p"
    by (simp add: param_eq_def example_clone_parameter_def)
  have H2: "constraint_dict_keys (example_clone_constraint c) = constraint_dict_keys c \<and>
      list_all2 param_eq (constraint_parameters (example_clone_constraint c))
        (constraint_parameters c)" for c
    using H1 param_eq_name[OF H1[rule_format]]
    by (cases c) (simp_all add: list_all2_map1 list_all2_same)
  note t = clone_is_base_search_space[of example_clone_parameter example_clone_constraint
      example_tree_space ?arm 3 example_tree "Some [example_tree_order 12 13]"]
  from t[THEN conjunct2, THEN conjunct2] ok H1 H2
  have hs: "cls example_tree_space = HierarchicalSearchSpace_cls"
    and ca: "cast_arm example_tree_space ?arm = Inl NotImplementedError"
    and ex: "\<exists>s'. clone example_clone_parameter example_clone_constraint example_tree_space = Inr s' \<and>
            parameters s' = map (\<lambda>p. (name p, example_clone_parameter p)) example_tree \<and>
            length (parameter_constraints s') = length (parameter_constraints example_tree_space)"
    by blast+
  from ex obtain s' where
    c: "clone example_clone_parameter example_clone_constraint example_tree_space = Inr s'"
    and p: "parameters s' = map (\<lambda>p. (name p, example_clone_parameter p)) example_tree"
    by blast
  from t[THEN conjunct1, rule_format, OF c] c p
  have "\<exists>s'. clone example_clone_parameter example_clone_constraint example_tree_space = Inr s' \<and>
      cls s' = SearchSpace_cls \<and> root s' = None \<and>
      parameters s' = map (\<lambda>p. (name p, example_clone_parameter p)) example_tree \<and>
      cast_arm s' ?arm = SearchSpace_cast_arm s' ?arm \<and>
      flatten s' = Inl (AttributeError ''flatten'')"
    by blast
  with ok hs ca show ?thesis by (intro conjI)
qed

end
